theory Spec2Isabelle
  imports Complex_Main "HOL-Library.Extended_Nat" "HOL-Library.Multiset"
begin

section \<open>Strings and the regular expressions of \<^verbatim>\<open>src/page/unjunk.ts\<close>\<close>

text \<open>
  A JavaScript string is modelled as a \<^typ>\<open>string\<close>: a list of code units, here
  the 8-bit ones. The class \<^verbatim>\<open>\s\<close> then holds TAB, LF, VT, FF, CR, SPACE and
  NBSP.
\<close>

definition isSpace :: "char \<Rightarrow> bool" where
  "isSpace c \<longleftrightarrow> c \<in> set [CHR 0x09, CHR 0x0A, CHR 0x0B, CHR 0x0C, CHR 0x0D, CHR 0x20, CHR 0xA0]"

definition dquote :: char where
  "dquote = CHR 0x22"

definition squote :: char where
  "squote = CHR 0x27"

text \<open>
  \<^verbatim>\<open>const RE_XMLNS_ATTR = /^xmlns(?:|$)/;\<close>
  The group has two alternatives, the empty one and the end of the input; the empty one
  is tried first and always matches.
\<close>

definition RE_XMLNS_ATTR :: "string \<Rightarrow> bool" where
  "RE_XMLNS_ATTR s \<longleftrightarrow> take 5 s = ''xmlns'' \<and> (True \<or> drop 5 s = [])"

text \<open>What XML calls a namespace declaration: \<^verbatim>\<open>xmlns\<close> or \<^verbatim>\<open>xmlns:prefix\<close>.\<close>

definition isNamespaceDeclaration :: "string \<Rightarrow> bool" where
  "isNamespaceDeclaration s \<longleftrightarrow> s = ''xmlns'' \<or> take 6 s = ''xmlns:''"

definition doNotRemoveAttrs :: "string list" where
  "doNotRemoveAttrs =
    [''xmlns'', ''viewBox'',
     ''width'', ''height'',
     ''r'', ''rx'', ''ry'', ''cx'', ''cy'',
     ''x'', ''y'', ''x1'', ''x2'', ''y1'', ''y2'',
     ''d'',
     ''offset'', ''stop-color'',
     ''filterUnits'']"

definition unwrapElements :: "string list" where
  "unwrapElements = [''g'', ''svg'']"

subsection \<open>sortAttrs\<close>

text \<open>
  \<^verbatim>\<open>for (let i = attrNames.length; i-- > 0;) {
    if (RE_XMLNS_ATTR.test(attrNames[i])) {
      attrNames.push(attrNames[i]);
      attrNames.splice(i, 1);
    } }\<close>
  The first argument of the loop is the value of \<^verbatim>\<open>i\<close> before the test
  \<^verbatim>\<open>i-- > 0\<close>; the body runs with \<^verbatim>\<open>i - 1\<close>, which is always in range
  because a push followed by a splice keeps the length.
\<close>

fun sortAttrs_loop :: "nat \<Rightarrow> string list \<Rightarrow> string list" where
  "sortAttrs_loop 0 attrNames = attrNames"
| "sortAttrs_loop (Suc i) attrNames =
     sortAttrs_loop i
       (if RE_XMLNS_ATTR (attrNames ! i)
        then (let pushed = attrNames @ [attrNames ! i] in take i pushed @ drop (Suc i) pushed)
        else attrNames)"

definition sortAttrs :: "string list \<Rightarrow> string list" where
  "sortAttrs attrNames = sortAttrs_loop (length attrNames) attrNames"

section \<open>The attribute-order restorer\<close>

record PhysAttr =
  name :: string
  raw :: string
  start :: nat
  endIdx :: nat

text \<open>\<^verbatim>\<open>String.prototype.indexOf\<close>: the first position where the pattern occurs.\<close>

definition indexOf :: "string \<Rightarrow> string \<Rightarrow> nat option" where
  "indexOf s pat = List.find (\<lambda>i. take (length pat) (drop i s) = pat) [0 ..< Suc (length s)]"

text \<open>
  \<^verbatim>\<open>const reAttr = /\s+([^\s<>&'"]+)\s*=\s*("|')[^]*?\2/igy;\<close>
  The expression is sticky: a match starts exactly at \<^verbatim>\<open>lastIndex\<close>. The functions
  below work on the text from \<^verbatim>\<open>lastIndex\<close> on and return the first group and the
  length of the whole match.

  \<^item> \<open>reAttr_tail\<close> matches \<^verbatim>\<open>\s*=\s*("|')[^]*?\2\<close>. Giving back white space never
    helps (the next item is \<^verbatim>\<open>=\<close> or a quote), and the lazy \<^verbatim>\<open>[^]*?\<close> stops at
    the first occurrence of the opening quote.
  \<^item> \<open>reAttr_name\<close> is the greedy group 1 with its backtracking: the longest
    non-empty prefix of the run of name characters that the tail can follow.
\<close>

definition isNameChar :: "char \<Rightarrow> bool" where
  "isNameChar c \<longleftrightarrow> \<not> isSpace c \<and> c \<notin> set [CHR ''<'', CHR ''>'', CHR ''&'', squote, dquote]"

definition reAttr_tail :: "string \<Rightarrow> nat option" where
  "reAttr_tail t =
     (case dropWhile isSpace t of
        [] \<Rightarrow> None
      | c # t2 \<Rightarrow>
          if c \<noteq> CHR ''='' then None
          else (case dropWhile isSpace t2 of
                  [] \<Rightarrow> None
                | q # t4 \<Rightarrow>
                    if (q = dquote \<or> q = squote) \<and> q \<in> set t4
                    then Some (length t - length t4 + length (takeWhile (\<lambda>x. x \<noteq> q) t4) + 1)
                    else None))"

fun reAttr_name :: "nat \<Rightarrow> string \<Rightarrow> nat \<Rightarrow> (string \<times> nat) option" where
  "reAttr_name w r 0 = None"
| "reAttr_name w r (Suc k) =
     (case reAttr_tail (drop (Suc k) r) of
        Some m \<Rightarrow> Some (take (Suc k) r, w + Suc k + m)
      | None \<Rightarrow> reAttr_name w r k)"

definition reAttr_exec :: "string \<Rightarrow> (string \<times> nat) option" where
  "reAttr_exec s =
     (let ws = takeWhile isSpace s; r = dropWhile isSpace s
      in if ws = [] then None
         else reAttr_name (length ws) r (length (takeWhile isNameChar r)))"

lemma reAttr_name_len:
  "reAttr_name w r k = Some (nm, len) \<Longrightarrow> w < len"
  by (induction k) (auto split: option.splits)

lemma reAttr_exec_len:
  assumes "reAttr_exec s = Some (nm, len)"
  shows "0 < len \<and> s \<noteq> []"
proof -
  from assms have ws: "takeWhile isSpace s \<noteq> []"
    and nm: "reAttr_name (length (takeWhile isSpace s)) (dropWhile isSpace s)
           (length (takeWhile isNameChar (dropWhile isSpace s))) = Some (nm, len)"
    by (auto simp: reAttr_exec_def Let_def split: if_splits)
  from reAttr_name_len [OF nm] have "0 < len" by simp
  moreover from ws have "s \<noteq> []" by auto
  ultimately show ?thesis by simp
qed

text \<open>
  \<^verbatim>\<open>for (let match = reAttr.exec(svgCode); match !== null; match = reAttr.exec(svgCode))\<close>:
  \<open>pos\<close> is \<^verbatim>\<open>lastIndex\<close> and \<open>rest\<close> the text from there on. The loop ends
  at the first position where the sticky expression does not match.
\<close>

function getAttrs_loop :: "nat \<Rightarrow> string \<Rightarrow> PhysAttr list" where
  "getAttrs_loop pos rest =
     (case reAttr_exec rest of
        None \<Rightarrow> []
      | Some (nm, len) \<Rightarrow>
          \<lparr>name = nm, raw = take len rest, start = pos, endIdx = pos + len\<rparr>
            # getAttrs_loop (pos + len) (drop len rest))"
  by pat_completeness auto
termination
  by (relation "measure (\<lambda>(pos, rest). length rest)") (auto dest!: reAttr_exec_len)

definition getAttrs :: "string \<Rightarrow> PhysAttr list" where
  "getAttrs svgCode =
     (case indexOf svgCode ''<svg'' of
        None \<Rightarrow> []
      | Some st \<Rightarrow> getAttrs_loop (st + 4) (drop (st + 4) svgCode))"

text \<open>
  The \<^verbatim>\<open>Map\<close> of \<open>fixAttrOrder\<close>: every name of the new attributes is set to its
  index, then every name of the original attributes to \<^verbatim>\<open>newAttrs.length + i\<close>; a
  later \<^verbatim>\<open>set\<close> of the same name overwrites an earlier one.
\<close>

definition attrOrder :: "PhysAttr list \<Rightarrow> PhysAttr list \<Rightarrow> string \<Rightarrow> nat option" where
  "attrOrder newAttrs originalAttrs =
     fold (\<lambda>i m. m(name (originalAttrs ! i) \<mapsto> length newAttrs + i)) [0 ..< length originalAttrs]
       (fold (\<lambda>i m. m(name (newAttrs ! i) \<mapsto> i)) [0 ..< length newAttrs] Map.empty)"

text \<open>
  \<^verbatim>\<open>attrOrder.get(a.name) as number\<close>. Every new attribute has an entry (lemma
  \<open>attrOrder_defined\<close>), so the \<open>None\<close> branch is never taken.
\<close>

definition orderKey :: "(string \<Rightarrow> nat option) \<Rightarrow> PhysAttr \<Rightarrow> nat" where
  "orderKey m a = (case m (name a) of Some k \<Rightarrow> k | None \<Rightarrow> 0)"

text \<open>
  \<^verbatim>\<open>newAttrs.sort((a, b) => attrOrder.get(a.name) - attrOrder.get(b.name))\<close>:
  \<^verbatim>\<open>Array.prototype.sort\<close> is stable, as is \<^const>\<open>sort_key\<close>.
\<close>

definition sortedAttrs :: "PhysAttr list \<Rightarrow> PhysAttr list \<Rightarrow> PhysAttr list" where
  "sortedAttrs newAttrs originalAttrs = sort_key (orderKey (attrOrder newAttrs originalAttrs)) newAttrs"

definition fixAttrOrder :: "string \<Rightarrow> PhysAttr list \<Rightarrow> string" where
  "fixAttrOrder svgCode originalAttrs =
     (let newAttrs = getAttrs svgCode
      in if length newAttrs = 0 then svgCode
         else let sliceStart = start (newAttrs ! 0);
                  sliceEnd = endIdx (newAttrs ! (length newAttrs - 1))
              in take sliceStart svgCode
                 @ concat (map raw (sortedAttrs newAttrs originalAttrs))
                 @ drop sliceEnd svgCode)"

text \<open>Position of a name among the original attributes: its last occurrence.\<close>

definition originalPosition :: "PhysAttr list \<Rightarrow> string \<Rightarrow> nat" where
  "originalPosition originalAttrs n =
     last (filter (\<lambda>i. name (originalAttrs ! i) = n) [0 ..< length originalAttrs])"

text \<open>Position of a name among the attributes of a list: its last occurrence.\<close>

definition lastIndexIn :: "PhysAttr list \<Rightarrow> string \<Rightarrow> nat" where
  "lastIndexIn attrs n = last (filter (\<lambda>i. name (attrs ! i) = n) [0 ..< length attrs])"

definition isOriginalName :: "PhysAttr list \<Rightarrow> PhysAttr \<Rightarrow> bool" where
  "isOriginalName originalAttrs a \<longleftrightarrow> name a \<in> set (map name originalAttrs)"

section \<open>The document model\<close>

text \<open>
  The tree that \<^verbatim>\<open>DOMParser\<close> hands to the code. An attribute has its qualified name
  (\<^verbatim>\<open>name\<close>), its namespace, its local name and its value. An element has its
  qualified name (\<^verbatim>\<open>nodeName\<close>), its namespace, its attributes in order, the tokens
  of \<^verbatim>\<open>classList\<close>, the property names of \<^verbatim>\<open>style\<close> and its children. Every other
  node (text, comment, CDATA section, processing instruction, document type) is a leaf.

  \<^verbatim>\<open>const el = child as SVGElement;\<close> is an unchecked cast. \<^verbatim>\<open>style\<close> is a property of
  SVG and HTML elements only; on an element of any other namespace \<^verbatim>\<open>el.style\<close> is
  \<^verbatim>\<open>undefined\<close>, which is \<open>None\<close> here.
\<close>

datatype attribute =
  Attribute (attrName: string) (attrNamespaceURI: "string option") (attrLocalName: string)
    (nodeValue: string)

datatype nodeKind =
  TEXT_NODE | CDATA_SECTION_NODE | PROCESSING_INSTRUCTION_NODE | COMMENT_NODE | DOCUMENT_TYPE_NODE

datatype node =
    Element (nodeName: string) (namespaceURI: "string option") (attributes: "attribute list")
      (classList: "string list") (style: "string list option") (childNodes: "node list")
  | Leaf nodeKind string

text \<open>A document is the list of the children of the \<^verbatim>\<open>Document\<close> node.\<close>

type_synonym document = "node list"

fun isElement :: "node \<Rightarrow> bool" where
  "isElement (Element nm ns attrs cls st kids) = True"
| "isElement (Leaf k d) = False"

definition documentElement :: "document \<Rightarrow> node option" where
  "documentElement doc = List.find isElement doc"

definition SVG_NS :: string where
  "SVG_NS = ''http://www.w3.org/2000/svg''"

definition XLINK_NS :: string where
  "XLINK_NS = ''http://www.w3.org/1999/xlink''"

definition XMLNS_NS :: string where
  "XMLNS_NS = ''http://www.w3.org/2000/xmlns/''"

subsection \<open>Attribute access\<close>

text \<open>
  \<^verbatim>\<open>getAttribute\<close>, \<^verbatim>\<open>hasAttribute\<close>, \<^verbatim>\<open>removeAttribute\<close> and \<^verbatim>\<open>setAttribute\<close> work on
  the first attribute with the given qualified name; \<^verbatim>\<open>setAttribute\<close> appends an
  attribute without namespace when there is none.
\<close>

definition getAttribute :: "attribute list \<Rightarrow> string \<Rightarrow> string option" where
  "getAttribute attrs qn = map_option nodeValue (List.find (\<lambda>a. attrName a = qn) attrs)"

definition hasAttribute :: "attribute list \<Rightarrow> string \<Rightarrow> bool" where
  "hasAttribute attrs qn \<longleftrightarrow> List.find (\<lambda>a. attrName a = qn) attrs \<noteq> None"

definition hasAttributeNS :: "attribute list \<Rightarrow> string \<Rightarrow> string \<Rightarrow> bool" where
  "hasAttributeNS attrs ns lname \<longleftrightarrow>
     List.find (\<lambda>a. attrNamespaceURI a = Some ns \<and> attrLocalName a = lname) attrs \<noteq> None"

fun removeAttribute :: "string \<Rightarrow> attribute list \<Rightarrow> attribute list" where
  "removeAttribute qn [] = []"
| "removeAttribute qn (a # as) = (if attrName a = qn then as else a # removeAttribute qn as)"

fun setAttribute :: "string \<Rightarrow> string \<Rightarrow> attribute list \<Rightarrow> attribute list" where
  "setAttribute qn v [] = [Attribute qn None qn v]"
| "setAttribute qn v (a # as) =
     (if attrName a = qn then Attribute (attrName a) (attrNamespaceURI a) (attrLocalName a) v # as
      else a # setAttribute qn v as)"

text \<open>\<^verbatim>\<open>x || d\<close> on a string that may be \<^verbatim>\<open>null\<close>: \<^verbatim>\<open>null\<close> and the empty string give \<open>d\<close>.\<close>

definition orElse :: "string option \<Rightarrow> string \<Rightarrow> string" where
  "orElse x d = (case x of None \<Rightarrow> d | Some v \<Rightarrow> if v = [] then d else v)"

text \<open>The local name of an element: its qualified name without the prefix.\<close>

definition localNameOf :: "string \<Rightarrow> string" where
  "localNameOf qn = (if CHR '':'' \<in> set qn then tl (dropWhile (\<lambda>c. c \<noteq> CHR '':'') qn) else qn)"

text \<open>
  \<^verbatim>\<open>grad.querySelector('stop')\<close>: the first descendant element, in document order, with
  local name \<^verbatim>\<open>stop\<close>. The result is the attribute list of that element, which is all
  the code reads.
\<close>

fun querySelector_stop :: "node list \<Rightarrow> attribute list option" where
  "querySelector_stop [] = None"
| "querySelector_stop (Leaf k d # rest) = querySelector_stop rest"
| "querySelector_stop (Element nm ns attrs cls st kids # rest) =
     (if localNameOf nm = ''stop'' then Some attrs
      else (case querySelector_stop kids of
              Some r \<Rightarrow> Some r
            | None \<Rightarrow> querySelector_stop rest))"

text \<open>
  \<^verbatim>\<open>const RE_URL_FUNCTION = /^\s*url\(\s*(.*?)\s*\)$/i;\<close> The result is group 1. The
  lazy group is the shortest text without line terminator after which only white space
  and the closing parenthesis remain.
\<close>

definition toLowerAscii :: "char \<Rightarrow> char" where
  "toLowerAscii c = (if c = CHR ''U'' then CHR ''u'' else if c = CHR ''R'' then CHR ''r''
                     else if c = CHR ''L'' then CHR ''l'' else c)"

definition isLineTerminator :: "char \<Rightarrow> bool" where
  "isLineTerminator c \<longleftrightarrow> c = CHR 0x0A \<or> c = CHR 0x0D"

definition RE_URL_FUNCTION :: "string \<Rightarrow> string option" where
  "RE_URL_FUNCTION s =
     (let s1 = dropWhile isSpace s
      in if map toLowerAscii (take 4 s1) = ''url(''
         then (let r = dropWhile isSpace (drop 4 s1)
               in map_option (\<lambda>k. take k r)
                    (List.find (\<lambda>k. list_all (\<lambda>c. \<not> isLineTerminator c) (take k r)
                                        \<and> dropWhile isSpace (drop k r) = '')'')
                       [0 ..< Suc (length r)]))
         else None)"

section \<open>The candidate generator\<close>

text \<open>
  A candidate refers to the node it edits by the path of child indices from the
  \<^verbatim>\<open>Document\<close> node, where the source holds a reference to the node. The candidates are
  produced from the freshly parsed document. The source's generator runs lazily on the
  live tree; the two agree up to the first candidate that changes the structure of the
  tree, after which the driver leaves the walk.
\<close>

type_synonym path = "nat list"

datatype cleaningOp =
    RemoveChild path
  | ReplaceXlinkHref path
  | RemoveAttribute path string
  | RemoveClass path string
  | RemoveStyleProperty path string
  | InlineGradient path string string string
  | Unwrap path

text \<open>
  What \<^verbatim>\<open>opGenerator.next()\<close> does: it yields a candidate, or the generator's code
  throws (\<^verbatim>\<open>Array.from(undefined)\<close> is a \<^verbatim>\<open>TypeError\<close>).
\<close>

datatype event = Yield cleaningOp | Throw

fun untilThrow :: "event list \<Rightarrow> event list" where
  "untilThrow [] = []"
| "untilThrow (Throw # es) = [Throw]"
| "untilThrow (Yield c # es) = Yield c # untilThrow es"

text \<open>
  \<open>inlineGradient p attrs kids\<close> is \<^verbatim>\<open>inlineGradient(grad)\<close> for the element at \<open>p\<close>
  with these attributes and children. The reference, the colour and the opacity are
  computed when the candidate is yielded and stored in it.
\<close>

definition inlineGradient :: "path \<Rightarrow> attribute list \<Rightarrow> node list \<Rightarrow> event list" where
  "inlineGradient p attrs kids =
     (if \<not> hasAttribute attrs ''id'' then []
      else (let gradRef = CHR ''#'' # orElse (getAttribute attrs ''id'') []
            in case querySelector_stop kids of
                 None \<Rightarrow> []
               | Some refStop \<Rightarrow>
                   [Yield (InlineGradient p gradRef
                      (orElse (getAttribute refStop ''stop-color'') ''black'')
                      (orElse (getAttribute refStop ''stop-opacity'') ''1''))]))"

definition xlinkOps :: "path \<Rightarrow> attribute list \<Rightarrow> event list" where
  "xlinkOps p attrs = (if hasAttributeNS attrs XLINK_NS ''href'' then [Yield (ReplaceXlinkHref p)] else [])"

definition attrOps :: "path \<Rightarrow> attribute list \<Rightarrow> event list" where
  "attrOps p attrs =
     map (\<lambda>n. Yield (RemoveAttribute p n))
       (filter (\<lambda>n. n \<notin> set doNotRemoveAttrs) (sortAttrs (map attrName attrs)))"

definition classOps :: "path \<Rightarrow> string list \<Rightarrow> event list" where
  "classOps p cls = map (\<lambda>c. Yield (RemoveClass p c)) cls"

definition styleOps :: "path \<Rightarrow> string list option \<Rightarrow> event list" where
  "styleOps p st =
     (case st of
        None \<Rightarrow> [Throw]
      | Some props \<Rightarrow> map (\<lambda>s. Yield (RemoveStyleProperty p s)) props)"

definition gradientOps :: "path \<Rightarrow> string \<Rightarrow> attribute list \<Rightarrow> node list \<Rightarrow> event list" where
  "gradientOps p nm attrs kids =
     (if nm = ''linearGradient'' \<or> nm = ''radialGradient'' then inlineGradient p attrs kids else [])"

definition unwrapOps :: "bool \<Rightarrow> path \<Rightarrow> string \<Rightarrow> event list" where
  "unwrapOps parentIsElement p nm =
     (if nm \<in> set unwrapElements \<and> parentIsElement then [Yield (Unwrap p)] else [])"

text \<open>
  \<open>cleaningOps_children pe p i cs\<close> is the loop of \<^verbatim>\<open>cleaningOps(parentNode)\<close> over the
  children \<open>cs\<close>, the first of which has index \<open>i\<close>; \<open>pe\<close> says whether the parent
  (at path \<open>p\<close>) is an element. \<open>cleaningOps_child pe p c\<close> is one round of the loop for
  the child \<open>c\<close> at path \<open>p\<close>.
\<close>

fun cleaningOps_children :: "bool \<Rightarrow> path \<Rightarrow> nat \<Rightarrow> node list \<Rightarrow> event list"
  and cleaningOps_child :: "bool \<Rightarrow> path \<Rightarrow> node \<Rightarrow> event list" where
  "cleaningOps_children pe p i [] = []"
| "cleaningOps_children pe p i (c # cs) =
     cleaningOps_child pe (p @ [i]) c @ cleaningOps_children pe p (Suc i) cs"
| "cleaningOps_child pe p (Leaf k d) = [Yield (RemoveChild p)]"
| "cleaningOps_child pe p (Element nm ns attrs cls st kids) =
     (if pe then [Yield (RemoveChild p)] else [])
     @ cleaningOps_children True p 0 kids
     @ xlinkOps p attrs
     @ attrOps p attrs
     @ classOps p cls
     @ styleOps p st
     @ gradientOps p nm attrs kids
     @ unwrapOps pe p nm"

definition cleaningOps :: "document \<Rightarrow> event list" where
  "cleaningOps doc = untilThrow (cleaningOps_children False [] 0 doc)"

section \<open>Applying a candidate\<close>

text \<open>\<open>replaceAt p f ns\<close> replaces the node at path \<open>p\<close> by the nodes \<open>f\<close> makes of it.\<close>

fun replaceAt :: "path \<Rightarrow> (node \<Rightarrow> node list) \<Rightarrow> node list \<Rightarrow> node list" where
  "replaceAt [] f ns = ns"
| "replaceAt [i] f ns = (if i < length ns then take i ns @ f (ns ! i) @ drop (Suc i) ns else ns)"
| "replaceAt (i # j # p) f ns =
     (if i < length ns
      then (case ns ! i of
              Element nm nsp attrs cls st kids \<Rightarrow>
                ns[i := Element nm nsp attrs cls st (replaceAt (j # p) f kids)]
            | Leaf k d \<Rightarrow> ns)
      else ns)"

fun withAttributes :: "(attribute list \<Rightarrow> attribute list) \<Rightarrow> node \<Rightarrow> node" where
  "withAttributes f (Element nm ns attrs cls st kids) = Element nm ns (f attrs) cls st kids"
| "withAttributes f (Leaf k d) = Leaf k d"

fun withClassList :: "(string list \<Rightarrow> string list) \<Rightarrow> node \<Rightarrow> node" where
  "withClassList f (Element nm ns attrs cls st kids) = Element nm ns attrs (f cls) st kids"
| "withClassList f (Leaf k d) = Leaf k d"

fun withStyle :: "(string list \<Rightarrow> string list) \<Rightarrow> node \<Rightarrow> node" where
  "withStyle f (Element nm ns attrs cls st kids) = Element nm ns attrs cls (map_option f st) kids"
| "withStyle f (Leaf k d) = Leaf k d"

fun childrenOf :: "node \<Rightarrow> node list" where
  "childrenOf (Element nm ns attrs cls st kids) = kids"
| "childrenOf (Leaf k d) = []"

text \<open>
  The candidate for \<^verbatim>\<open>xlink:href\<close>: for every attribute of the snapshot, remove it by
  name and set it again, under the name \<^verbatim>\<open>href\<close> if it is the XLink one. The value is
  read from the attribute node, which is still attached when its turn comes (qualified
  names are unique in a parsed element), so it is the current value.
\<close>

definition replaceXlinkHref :: "attribute list \<Rightarrow> attribute list" where
  "replaceXlinkHref attrs =
     fold (\<lambda>attrNode live.
             let v = (case getAttribute live (attrName attrNode) of
                        Some cur \<Rightarrow> cur | None \<Rightarrow> nodeValue attrNode);
                 removed = removeAttribute (attrName attrNode) live
             in if attrNamespaceURI attrNode = Some XLINK_NS \<and> attrLocalName attrNode = ''href''
                then setAttribute ''href'' v removed
                else setAttribute (attrName attrNode) v removed)
          attrs attrs"

text \<open>
  One element in the loop of the gradient candidate: \<^verbatim>\<open>querySelectorAll(`[${attrName}]`)\<close>
  selects the elements with an attribute of that local name and no namespace.
\<close>

definition inlineInto :: "string \<Rightarrow> string \<Rightarrow> string \<Rightarrow> string \<Rightarrow> attribute list \<Rightarrow> attribute list" where
  "inlineInto an gradRef refColor refOpacity attrs =
     (if list_ex (\<lambda>a. attrNamespaceURI a = None \<and> attrLocalName a = an) attrs
         \<and> RE_URL_FUNCTION (orElse (getAttribute attrs an) []) = Some gradRef
      then setAttribute (an @ ''-opacity'') refOpacity (setAttribute an refColor attrs)
      else attrs)"

fun mapAttributes :: "(attribute list \<Rightarrow> attribute list) \<Rightarrow> node \<Rightarrow> node" where
  "mapAttributes f (Leaf k d) = Leaf k d"
| "mapAttributes f (Element nm ns attrs cls st kids) =
     Element nm ns (f attrs) cls st (map (mapAttributes f) kids)"

definition startsWith :: "string \<Rightarrow> string \<Rightarrow> bool" where
  "startsWith s pre \<longleftrightarrow> take (length pre) s = pre"

text \<open>
  Running the candidate: the mutated document, \<^verbatim>\<open>backtrack\<close> (\<open>\<infinity>\<close> is
  \<^verbatim>\<open>Infinity\<close>) and \<^verbatim>\<open>forceLossless\<close>.
\<close>

fun applyOp :: "cleaningOp \<Rightarrow> document \<Rightarrow> document \<times> enat \<times> bool" where
  "applyOp (RemoveChild p) doc = (replaceAt p (\<lambda>n. []) doc, 0, False)"
| "applyOp (ReplaceXlinkHref p) doc =
     (replaceAt p (\<lambda>n. [withAttributes replaceXlinkHref n]) doc, 0, False)"
| "applyOp (RemoveAttribute p an) doc =
     (replaceAt p (\<lambda>n. [withAttributes (removeAttribute an) n]) doc, 0, startsWith an ''stroke-'')"
| "applyOp (RemoveClass p c) doc =
     (replaceAt p (\<lambda>n. [withClassList (filter (\<lambda>x. x \<noteq> c)) n]) doc, 0, False)"
| "applyOp (RemoveStyleProperty p s) doc =
     (replaceAt p (\<lambda>n. [withStyle (filter (\<lambda>x. x \<noteq> s)) n]) doc, 0, startsWith s ''stroke-'')"
| "applyOp (InlineGradient p gradRef refColor refOpacity) doc =
     (replaceAt p (\<lambda>n. [])
        (map (mapAttributes (inlineInto ''stroke'' gradRef refColor refOpacity))
           (map (mapAttributes (inlineInto ''fill'' gradRef refColor refOpacity)) doc)),
      \<infinity>, False)"
| "applyOp (Unwrap p) doc = (replaceAt p childrenOf doc, 1, False)"

section \<open>The equivalence check\<close>

text \<open>
  \<^verbatim>\<open>IImageComparator.compare(svgCodeA, svgCodeB, scale)\<close>: the defect score, or \<open>None\<close>
  when the promise rejects (a markup that does not parse or render, images of different
  sizes). The recolouring of \<^verbatim>\<open>_transformCode\<close> and the rasterisation happen inside.
\<close>

type_synonym comparator = "string \<Rightarrow> string \<Rightarrow> real \<Rightarrow> real option"

text \<open>
  One round of the loop of \<open>assertVisuallySame\<close>: whether the round ends without
  throwing, and the scales at which \<^verbatim>\<open>compare\<close> has been called.
\<close>

definition comparatorRound :: "comparator \<Rightarrow> string \<Rightarrow> string \<Rightarrow> bool \<Rightarrow> bool \<times> real list" where
  "comparatorRound cmp svgCodeA svgCodeB lossless =
     (case cmp svgCodeA svgCodeB 1 of
        None \<Rightarrow> (False, [1])
      | Some defectScore1x \<Rightarrow>
          if defectScore1x \<le> 0 then (True, [1])
          else if lossless then (False, [1])
          else (case cmp svgCodeA svgCodeB 2 of
                  None \<Rightarrow> (False, [1, 2])
                | Some defectScore2x \<Rightarrow>
                    (let defectScale = defectScore2x / defectScore1x
                     in if defectScale \<ge> 2 powr 1.5 then (False, [1, 2]) else (True, [1, 2]))))"

text \<open>\<open>True\<close> when \<open>assertVisuallySame\<close> returns, \<open>False\<close> when it throws.\<close>

fun assertVisuallySame :: "string \<Rightarrow> string \<Rightarrow> comparator list \<Rightarrow> bool \<Rightarrow> bool" where
  "assertVisuallySame svgCodeA svgCodeB [] lossless = True"
| "assertVisuallySame svgCodeA svgCodeB (cmp # comparators) lossless =
     (if fst (comparatorRound cmp svgCodeA svgCodeB lossless)
      then assertVisuallySame svgCodeA svgCodeB comparators lossless
      else False)"


section \<open>The driver\<close>

datatype error = SyntaxError string | TypeError | RangeError

text \<open>
  The browser, as the code uses it:
  \<^item> \<open>parseFromString\<close>: the document that \<^verbatim>\<open>DOMParser\<close> returns, and the text content of
    the element that \<^verbatim>\<open>querySelector('parsererror > h3:first-child + div')\<close> finds in it
    (empty when there is none);
  \<^item> \<open>serializeToString\<close>: \<^verbatim>\<open>XMLSerializer\<close>;
  \<^item> \<open>defaultComparator\<close> and \<open>recoloredComparator\<close>: \<^verbatim>\<open>compare\<close> of a
    \<^verbatim>\<open>DefaultImageComparator\<close> and of a \<^verbatim>\<open>RecoloredImageComparator\<close> made with the given
    base scale;
  \<^item> \<open>stackDepth\<close>: how many nested calls of \<open>parse\<close> fit on the stack.
\<close>

record env =
  parseFromString :: "string \<Rightarrow> document \<times> string"
  serializeToString :: "document \<Rightarrow> string"
  defaultComparator :: "real \<Rightarrow> comparator"
  recoloredComparator :: "real \<Rightarrow> comparator"
  stackDepth :: nat

text \<open>\<^verbatim>\<open>doc.documentElement.setAttribute(...)\<close>: on the first element among the children.\<close>

fun setDocumentElementAttribute :: "string \<Rightarrow> string \<Rightarrow> document \<Rightarrow> document" where
  "setDocumentElementAttribute qn v [] = []"
| "setDocumentElementAttribute qn v (n # ns) =
     (if isElement n then withAttributes (setAttribute qn v) n # ns
      else n # setDocumentElementAttribute qn v ns)"

text \<open>
  \<open>parse\<close>. The first argument of \<open>parse_rec\<close> counts the calls that still fit on the
  stack; a deeper recursion is a \<^verbatim>\<open>RangeError\<close>. A document without document element
  makes \<^verbatim>\<open>doc.documentElement.namespaceURI\<close> a \<^verbatim>\<open>TypeError\<close>.
\<close>

fun parse_rec :: "nat \<Rightarrow> env \<Rightarrow> string \<Rightarrow> error + document" where
  "parse_rec 0 e svgCode = Inl RangeError"
| "parse_rec (Suc depth) e svgCode =
     (let (doc, errText) = parseFromString e svgCode
      in case documentElement doc of
           None \<Rightarrow> Inl TypeError
         | Some rootEl \<Rightarrow>
             if namespaceURI rootEl \<noteq> Some SVG_NS
             then (if errText \<noteq> []
                   then Inl (SyntaxError (''SVG parse error: '' @ take 256 errText))
                   else if namespaceURI rootEl \<noteq> None
                   then Inl (SyntaxError ''SVG parse error: The namespace should be \"http://www.w3.org/2000/svg\"'')
                   else parse_rec depth e
                          (serializeToString e (setDocumentElementAttribute ''xmlns'' SVG_NS doc)))
             else if nodeName rootEl \<noteq> ''svg''
             then Inl (SyntaxError ''SVG parse error: The document element tag should be \"svg\" in lowercase'')
             else Inr doc)"

definition parse :: "env \<Rightarrow> string \<Rightarrow> error + document" where
  "parse e svgCode = parse_rec (stackDepth e) e svgCode"

text \<open>\<^verbatim>\<open>Math.max(opNumber - backtrack, 0)\<close>, with \<^verbatim>\<open>Infinity\<close> for \<open>\<infinity>\<close>.\<close>

definition skipAfter :: "nat \<Rightarrow> enat \<Rightarrow> nat" where
  "skipAfter opNumber backtrack =
     (case backtrack of
        enat b \<Rightarrow> nat (max (int opNumber - int b) 0)
      | \<infinity> \<Rightarrow> 0)"

text \<open>
  The body of the inner loop from \<^verbatim>\<open>skipOps = opNumber + 1\<close> on, for the candidate
  \<open>c\<close> with number \<open>opNumber\<close>:
  \<^item> \<open>NoChange doc' skipOps\<close>: the markup is the same, the walk goes on (\<^verbatim>\<open>continue\<close>);
  \<^item> \<open>Accepted newSvgCode skipOps\<close>: the check passed;
  \<^item> \<open>Rejected skipOps\<close>: the check threw, and the \<^verbatim>\<open>catch\<close> swallowed it.
\<close>

datatype attempt = NoChange document nat | Accepted string nat | Rejected nat

definition attemptOp ::
  "env \<Rightarrow> comparator list \<Rightarrow> bool \<Rightarrow> string \<Rightarrow> document \<Rightarrow> cleaningOp \<Rightarrow> nat \<Rightarrow> attempt" where
  "attemptOp e comparators lossless svgCode doc c opNumber =
     (let skipOps = opNumber + 1;
          (doc', backtrack, forceLossless) = applyOp c doc;
          newSvgCode = serializeToString e doc'
      in if newSvgCode = svgCode then NoChange doc' skipOps
         else if assertVisuallySame newSvgCode svgCode comparators (lossless \<or> forceLossless)
         then Accepted newSvgCode (skipAfter opNumber backtrack)
         else Rejected skipOps)"

text \<open>
  The inner loop \<^verbatim>\<open>for (let opNumber = 0; ; opNumber++)\<close> over what the generator still
  has to give:
  \<^item> \<open>Done\<close>: the generator is exhausted (\<^verbatim>\<open>break outer\<close>);
  \<^item> \<open>Threw\<close>: \<^verbatim>\<open>opGenerator.next()\<close> threw, outside of the \<^verbatim>\<open>try\<close>;
  \<^item> \<open>Restart svgCode skipOps\<close>: \<^verbatim>\<open>break\<close>, with the values the variables have then.
\<close>

datatype scanResult = Done | Threw | Restart string nat

fun scan ::
  "env \<Rightarrow> comparator list \<Rightarrow> bool \<Rightarrow> string \<Rightarrow> document \<Rightarrow> event list \<Rightarrow> nat \<Rightarrow> nat \<Rightarrow> scanResult" where
  "scan e comparators lossless svgCode doc [] opNumber skipOps = Done"
| "scan e comparators lossless svgCode doc (Throw # es) opNumber skipOps = Threw"
| "scan e comparators lossless svgCode doc (Yield c # es) opNumber skipOps =
     (if opNumber < skipOps
      then scan e comparators lossless svgCode doc es (Suc opNumber) skipOps
      else (case attemptOp e comparators lossless svgCode doc c opNumber of
              NoChange doc' skipOps' \<Rightarrow>
                scan e comparators lossless svgCode doc' es (Suc opNumber) skipOps'
            | Accepted newSvgCode skipOps' \<Rightarrow> Restart newSvgCode skipOps'
            | Rejected skipOps' \<Rightarrow> Restart svgCode skipOps'))"

text \<open>
  The outer loop \<^verbatim>\<open>for (let i = 0; i < 1000; i++)\<close>; the first argument is
  \<^verbatim>\<open>1000 - i\<close>. The result is \<^verbatim>\<open>svgCode\<close> when the loop is left, or the exception
  that leaves \<open>unjunk\<close>.
\<close>

fun unjunk_loop :: "nat \<Rightarrow> env \<Rightarrow> comparator list \<Rightarrow> bool \<Rightarrow> string \<Rightarrow> nat \<Rightarrow> error + string" where
  "unjunk_loop 0 e comparators lossless svgCode skipOps = Inr svgCode"
| "unjunk_loop (Suc n) e comparators lossless svgCode skipOps =
     (case parse e svgCode of
        Inl err \<Rightarrow> Inl err
      | Inr doc \<Rightarrow>
          (case scan e comparators lossless svgCode doc (cleaningOps doc) 0 skipOps of
             Done \<Rightarrow> Inr svgCode
           | Threw \<Rightarrow> Inl TypeError
           | Restart svgCode' skipOps' \<Rightarrow> unjunk_loop n e comparators lossless svgCode' skipOps'))"

record Options =
  scale :: "real option"
  lossless :: "bool option"

definition unjunk :: "env \<Rightarrow> string \<Rightarrow> Options \<Rightarrow> error + string" where
  "unjunk e svgCode options =
     (let sc = (case scale options of None \<Rightarrow> 2 | Some x \<Rightarrow> x);
          ll = (case lossless options of None \<Rightarrow> False | Some b \<Rightarrow> b);
          comparators = [defaultComparator e sc, recoloredComparator e sc];
          originalAttrs = getAttrs svgCode
      in case unjunk_loop 1000 e comparators ll svgCode 0 of
           Inl err \<Rightarrow> Inl err
         | Inr svgCode' \<Rightarrow> Inr (fixAttrOrder svgCode' originalAttrs))"

section \<open>The command line\<close>




section \<open>Reading the candidates and the documents\<close>

fun opPath :: "cleaningOp \<Rightarrow> path" where
  "opPath (RemoveChild p) = p"
| "opPath (ReplaceXlinkHref p) = p"
| "opPath (RemoveAttribute p an) = p"
| "opPath (RemoveClass p c) = p"
| "opPath (RemoveStyleProperty p s) = p"
| "opPath (InlineGradient p gradRef refColor refOpacity) = p"
| "opPath (Unwrap p) = p"

text \<open>The candidates of an event list that edit the node at path \<open>p\<close>, in order.\<close>

fun yieldsAt :: "path \<Rightarrow> event list \<Rightarrow> cleaningOp list" where
  "yieldsAt p [] = []"
| "yieldsAt p (Throw # es) = yieldsAt p es"
| "yieldsAt p (Yield c # es) = (if opPath c = p then c # yieldsAt p es else yieldsAt p es)"

text \<open>The node at a path: the path is the list of child indices from the document node.\<close>

fun nodeAt :: "path \<Rightarrow> node list \<Rightarrow> node option" where
  "nodeAt [] ns = None"
| "nodeAt [i] ns = (if i < length ns then Some (ns ! i) else None)"
| "nodeAt (i # j # p) ns = (if i < length ns then nodeAt (j # p) (childrenOf (ns ! i)) else None)"

text \<open>
  What one round of the generator's loop yields for the child itself, the walk through its
  children left out; \<open>pe\<close> says whether the parent is an element.
\<close>

definition ownEvents :: "bool \<Rightarrow> path \<Rightarrow> node \<Rightarrow> event list" where
  "ownEvents pe p n =
     (case n of
        Leaf k d \<Rightarrow> [Yield (RemoveChild p)]
      | Element nm ns attrs cls st kids \<Rightarrow>
          (if pe then [Yield (RemoveChild p)] else [])
          @ xlinkOps p attrs @ attrOps p attrs @ classOps p cls @ styleOps p st
          @ gradientOps p nm attrs kids @ unwrapOps pe p nm)"

text \<open>The attribute name of an attribute-removal candidate.\<close>

fun removedAttribute :: "cleaningOp \<Rightarrow> string option" where
  "removedAttribute (RemoveAttribute p an) = Some an"
| "removedAttribute (RemoveChild p) = None"
| "removedAttribute (ReplaceXlinkHref p) = None"
| "removedAttribute (RemoveClass p c) = None"
| "removedAttribute (RemoveStyleProperty p s) = None"
| "removedAttribute (InlineGradient p gradRef refColor refOpacity) = None"
| "removedAttribute (Unwrap p) = None"



text \<open>The qualified name and the namespace of an element.\<close>

fun identityOf :: "node \<Rightarrow> (string \<times> string option) option" where
  "identityOf (Element nm ns attrs cls st kids) = Some (nm, ns)"
| "identityOf (Leaf k d) = None"

text \<open>The qualified name and the namespace of the document element, if there is one.\<close>

definition rootIdentity :: "document \<Rightarrow> (string \<times> string option) option" where
  "rootIdentity doc = map_option (\<lambda>r. (nodeName r, namespaceURI r)) (documentElement doc)"

section \<open>Concrete inputs\<close>

text \<open>A final markup with the attributes \<open>xmlns a c b\<close> for an original with \<open>b a\<close>.\<close>

definition demoOriginal :: string where "demoOriginal = ''<svg b=\"2\" a=\"1\"/>''"
definition demoFinal :: string where "demoFinal = ''<svg xmlns=\"u\" a=\"1\" c=\"3\" b=\"2\"/>''"

text \<open>An element with two namespace declarations besides \<^verbatim>\<open>xmlns\<close>.\<close>

definition demoAttrs :: "attribute list" where
  "demoAttrs =
     [Attribute ''xmlns'' (Some XMLNS_NS) ''xmlns'' SVG_NS,
      Attribute ''xmlns:a'' (Some XMLNS_NS) ''a'' ''urn:a'',
      Attribute ''fill'' None ''fill'' ''red'',
      Attribute ''width'' None ''width'' ''9'',
      Attribute ''xmlns:b'' (Some XMLNS_NS) ''b'' ''urn:b'']"

definition demoAttrsDoc :: document where
  "demoAttrsDoc = [Element ''svg'' (Some SVG_NS) demoAttrs [] (Some []) []]"







subsection \<open>A concrete browser for the examples\<close>

text \<open>
  What \<^verbatim>\<open>XMLSerializer\<close> writes for a document whose names, values and texts need no
  escaping: attributes in order with double quotes, an element without children as an
  empty-element tag.
\<close>

definition demoSerializeAttr :: "attribute \<Rightarrow> string" where
  "demoSerializeAttr a = '' '' @ attrName a @ ''=\"'' @ nodeValue a @ ''\"''"

fun demoSerializeNode :: "node \<Rightarrow> string" where
  "demoSerializeNode (Leaf k d) =
     (case k of
        TEXT_NODE \<Rightarrow> d
      | CDATA_SECTION_NODE \<Rightarrow> ''<![CDATA['' @ d @ '']]>''
      | PROCESSING_INSTRUCTION_NODE \<Rightarrow> ''<?'' @ d @ ''?>''
      | COMMENT_NODE \<Rightarrow> ''<!--'' @ d @ ''-->''
      | DOCUMENT_TYPE_NODE \<Rightarrow> ''<!DOCTYPE '' @ d @ ''>'')"
| "demoSerializeNode (Element nm ns attrs cls st kids) =
     ''<'' @ nm @ concat (map demoSerializeAttr attrs)
     @ (if kids = [] then ''/>''
        else ''>'' @ concat (map demoSerializeNode kids) @ ''</'' @ nm @ ''>'')"

definition demoSerialize :: "document \<Rightarrow> string" where
  "demoSerialize doc = concat (map demoSerializeNode doc)"

definition xmlnsAttr :: attribute where
  "xmlnsAttr = Attribute ''xmlns'' (Some XMLNS_NS) ''xmlns'' SVG_NS"

definition plainAttr :: "string \<Rightarrow> string \<Rightarrow> attribute" where
  "plainAttr n v = Attribute n None n v"

definition svgElement :: "string \<Rightarrow> attribute list \<Rightarrow> node list \<Rightarrow> node" where
  "svgElement nm attrs kids = Element nm (Some SVG_NS) attrs [] (Some []) kids"

text \<open>
  First example: a root without namespace declaration and a comment. The parser gives
  a root element without namespace, which is no SVG element and has no \<^verbatim>\<open>style\<close>.
\<close>

definition bareInput :: string where
  "bareInput = ''<svg><!--c--></svg>''"

definition bareDoc :: document where
  "bareDoc = [Element ''svg'' None [] [] None [Leaf COMMENT_NODE ''c'']]"

definition boundDoc :: document where
  "boundDoc = [svgElement ''svg'' [xmlnsAttr] [Leaf COMMENT_NODE ''c'']]"

definition emptyDoc :: document where
  "emptyDoc = [svgElement ''svg'' [xmlnsAttr] []]"

text \<open>
  Second example: a black square with a red stroke of width 0, which does not show.
\<close>

definition sizeAttrs :: "attribute list" where
  "sizeAttrs = [xmlnsAttr, plainAttr ''width'' ''20'', plainAttr ''height'' ''20'']"

definition rectAttrs :: "attribute list" where
  "rectAttrs = [plainAttr ''width'' ''10'', plainAttr ''height'' ''10'']"

definition strokeDoc :: document where
  "strokeDoc =
     [svgElement ''svg'' sizeAttrs
        [svgElement ''rect'' (rectAttrs @ [plainAttr ''stroke-width'' ''0'', plainAttr ''stroke'' ''red'']) []]]"

definition strokeWidthDoc :: document where
  "strokeWidthDoc =
     [svgElement ''svg'' sizeAttrs [svgElement ''rect'' (rectAttrs @ [plainAttr ''stroke-width'' ''0'']) []]]"

definition strokeOnlyDoc :: document where
  "strokeOnlyDoc =
     [svgElement ''svg'' sizeAttrs [svgElement ''rect'' (rectAttrs @ [plainAttr ''stroke'' ''red'']) []]]"

definition squareDoc :: document where
  "squareDoc = [svgElement ''svg'' sizeAttrs [svgElement ''rect'' rectAttrs []]]"

definition blankDoc :: document where
  "blankDoc = [svgElement ''svg'' sizeAttrs []]"

text \<open>
  Third example: a style sheet that paints the square red as long as it is the third
  child, and an element of another namespace before the square. That element is no
  SVG element and has no \<^verbatim>\<open>style\<close>.
\<close>

definition styleRule :: node where
  "styleRule = svgElement ''style'' [] [Leaf TEXT_NODE ''rect:nth-child(3){fill:red}'']"

definition foreignElement :: node where
  "foreignElement =
     Element ''a'' (Some ''urn:a'') [Attribute ''xmlns'' (Some XMLNS_NS) ''xmlns'' ''urn:a''] [] None []"

definition foreignDoc :: document where
  "foreignDoc = [svgElement ''svg'' sizeAttrs [styleRule, foreignElement, svgElement ''rect'' rectAttrs []]]"

definition foreignDoc_noStyle :: document where
  "foreignDoc_noStyle = [svgElement ''svg'' sizeAttrs [foreignElement, svgElement ''rect'' rectAttrs []]]"

definition foreignDoc_noRule :: document where
  "foreignDoc_noRule =
     [svgElement ''svg'' sizeAttrs [svgElement ''style'' [] [], foreignElement, svgElement ''rect'' rectAttrs []]]"

definition foreignDoc_noForeign :: document where
  "foreignDoc_noForeign = [svgElement ''svg'' sizeAttrs [styleRule, svgElement ''rect'' rectAttrs []]]"

text \<open>What the parser gives for a text that is not XML, with its error message.\<close>

definition parserErrorDoc :: document where
  "parserErrorDoc = [Element ''html'' (Some ''http://www.w3.org/1999/xhtml'') [] [] (Some []) []]"

text \<open>
  The parser of the examples: the document among the ones above that is written as the
  given text.
\<close>

definition demoDocuments :: "document list" where
  "demoDocuments =
     [bareDoc, boundDoc, emptyDoc, strokeDoc, strokeWidthDoc, strokeOnlyDoc, squareDoc, blankDoc,
      foreignDoc]"

definition demoParse :: "string \<Rightarrow> document \<times> string" where
  "demoParse s =
     (case List.find (\<lambda>d. demoSerialize d = s) demoDocuments of
        Some d \<Rightarrow> (d, [])
      | None \<Rightarrow> (parserErrorDoc, ''error on line 1 at column 1: Document is empty''))"

text \<open>
  The pictures of the examples: 0 is the empty picture, 1 the black square, 2 the black
  square with a red outline, 3 the red square. A text without picture does not render.
\<close>

definition demoPictures :: "(string \<times> nat) list" where
  "demoPictures =
     [(bareInput, 0), (demoSerialize boundDoc, 0), (demoSerialize emptyDoc, 0), (demoSerialize blankDoc, 0),
      (demoSerialize strokeDoc, 1), (demoSerialize strokeWidthDoc, 1), (demoSerialize squareDoc, 1),
      (demoSerialize strokeOnlyDoc, 2),
      (demoSerialize foreignDoc, 3),
      (demoSerialize foreignDoc_noStyle, 1), (demoSerialize foreignDoc_noRule, 1),
      (demoSerialize foreignDoc_noForeign, 1)]"

text \<open>The score of two pictures: 0 when they are the same, else their size in pixels.\<close>

definition demoComparator :: "real \<Rightarrow> comparator" where
  "demoComparator baseScale svgCodeA svgCodeB sc =
     (case (map_of demoPictures svgCodeA, map_of demoPictures svgCodeB) of
        (Some a, Some b) \<Rightarrow> Some (if a = b then 0 else (20 * baseScale * sc) * (20 * baseScale * sc))
      | _ \<Rightarrow> None)"

definition demoEnv :: env where
  "demoEnv =
     \<lparr>parseFromString = demoParse, serializeToString = demoSerialize,
      defaultComparator = demoComparator, recoloredComparator = demoComparator,
      stackDepth = 1000\<rparr>"

definition demoLossless :: Options where
  "demoLossless = \<lparr>scale = None, lossless = Some True\<rparr>"

section \<open>Auxiliary facts\<close>

lemma fold_upd_lookup:
  "fold (\<lambda>i m. m(f i \<mapsto> g i)) [0 ..< k] m0 n =
     (case filter (\<lambda>i. f i = n) [0 ..< k] of [] \<Rightarrow> m0 n | j # js \<Rightarrow> Some (g (last (j # js))))"
  by (induction k) (auto split: list.splits)

lemma insort_key_cong_keys:
  "(\<And>y. y \<in> set ys \<Longrightarrow> (f x \<le> f y) = (g x \<le> g y)) \<Longrightarrow> insort_key f x ys = insort_key g x ys"
  by (induction ys) auto

lemma sort_key_cong_keys:
  "(\<And>x y. x \<in> set xs \<Longrightarrow> y \<in> set xs \<Longrightarrow> (f x \<le> f y) = (g x \<le> g y))
     \<Longrightarrow> sort_key f xs = sort_key g xs"
proof (induction xs)
  case Nil
  then show ?case by simp
next
  case (Cons x xs)
  have "sort_key f xs = sort_key g xs" using Cons by simp
  moreover have "insort_key f x (sort_key g xs) = insort_key g x (sort_key g xs)"
    by (rule insort_key_cong_keys) (use Cons.prems in auto)
  ultimately show ?case by simp
qed

lemma insort_key_append_left:
  "\<forall>b\<in>set B. f x \<le> f b \<Longrightarrow> insort_key f x (A @ B) = insort_key f x A @ B"
  by (induction A) (auto simp: insort_is_Cons)

lemma insort_key_append_right:
  fixes f :: "'a \<Rightarrow> nat"
  shows "\<forall>a\<in>set A. f a < f x \<Longrightarrow> insort_key f x (A @ B) = A @ insort_key f x B"
  by (induction A) (auto simp: not_le [symmetric])

lemma sort_key_partition:
  fixes f :: "'a \<Rightarrow> nat"
  assumes "\<And>x y. x \<in> set xs \<Longrightarrow> y \<in> set xs \<Longrightarrow> P x \<Longrightarrow> \<not> P y \<Longrightarrow> f x < f y"
  shows "sort_key f xs = sort_key f (filter P xs) @ sort_key f (filter (\<lambda>x. \<not> P x) xs)"
  using assms
proof (induction xs)
  case Nil
  then show ?case by simp
next
  case (Cons x xs)
  have IH: "sort_key f xs = sort_key f (filter P xs) @ sort_key f (filter (\<lambda>x. \<not> P x) xs)"
    using Cons by simp
  show ?case
  proof (cases "P x")
    case True
    have "insort_key f x (sort_key f (filter P xs) @ sort_key f (filter (\<lambda>x. \<not> P x) xs))
        = insort_key f x (sort_key f (filter P xs)) @ sort_key f (filter (\<lambda>x. \<not> P x) xs)"
      by (rule insort_key_append_left) (use Cons.prems True in \<open>auto intro: less_imp_le\<close>)
    with IH True show ?thesis by simp
  next
    case False
    have "insort_key f x (sort_key f (filter P xs) @ sort_key f (filter (\<lambda>x. \<not> P x) xs))
        = sort_key f (filter P xs) @ insort_key f x (sort_key f (filter (\<lambda>x. \<not> P x) xs))"
      by (rule insort_key_append_right) (use Cons.prems False in auto)
    with IH False show ?thesis by simp
  qed
qed



lemma occurs_filter_nonempty:
  "n \<in> set (map name attrs) \<longleftrightarrow> filter (\<lambda>i. name (attrs ! i) = n) [0 ..< length attrs] \<noteq> []"
proof
  assume "n \<in> set (map name attrs)"
  then obtain i where "i < length attrs" "name (attrs ! i) = n"
    by (auto simp: in_set_conv_nth)
  then have "i \<in> set (filter (\<lambda>i. name (attrs ! i) = n) [0 ..< length attrs])" by simp
  then show "filter (\<lambda>i. name (attrs ! i) = n) [0 ..< length attrs] \<noteq> []"
    by (metis empty_iff empty_set)
next
  assume "filter (\<lambda>i. name (attrs ! i) = n) [0 ..< length attrs] \<noteq> []"
  then obtain i where "i < length attrs" "name (attrs ! i) = n"
    by (auto simp: filter_empty_conv)
  then show "n \<in> set (map name attrs)"
    by (metis length_map nth_map nth_mem)
qed

lemma attrOrder_original:
  assumes "n \<in> set (map name originalAttrs)"
  shows "attrOrder newAttrs originalAttrs n = Some (length newAttrs + originalPosition originalAttrs n)"
proof -
  from assms obtain j js where
    "filter (\<lambda>i. name (originalAttrs ! i) = n) [0 ..< length originalAttrs] = j # js"
    unfolding occurs_filter_nonempty by (meson neq_Nil_conv)
  then show ?thesis
    unfolding attrOrder_def fold_upd_lookup originalPosition_def by simp
qed

lemma attrOrder_new:
  assumes "n \<notin> set (map name originalAttrs)" and "n \<in> set (map name newAttrs)"
  shows "attrOrder newAttrs originalAttrs n = Some (lastIndexIn newAttrs n)"
proof -
  from assms(1) have "filter (\<lambda>i. name (originalAttrs ! i) = n) [0 ..< length originalAttrs] = []"
    unfolding occurs_filter_nonempty by simp
  moreover from assms(2) obtain j js where
    "filter (\<lambda>i. name (newAttrs ! i) = n) [0 ..< length newAttrs] = j # js"
    unfolding occurs_filter_nonempty by (meson neq_Nil_conv)
  ultimately show ?thesis
    unfolding attrOrder_def fold_upd_lookup lastIndexIn_def by simp
qed

lemma attrOrder_defined:
  "a \<in> set newAttrs \<Longrightarrow> attrOrder newAttrs originalAttrs (name a) \<noteq> None"
proof (cases "name a \<in> set (map name originalAttrs)")
  case True
  from attrOrder_original [OF True] show ?thesis by simp
next
  case False
  assume "a \<in> set newAttrs"
  then have "name a \<in> set (map name newAttrs)" by simp
  from attrOrder_new [OF False this] show ?thesis by simp
qed

lemma lastIndexIn_less:
  assumes "n \<in> set (map name attrs)"
  shows "lastIndexIn attrs n < length attrs"
proof -
  let ?js = "filter (\<lambda>i. name (attrs ! i) = n) [0 ..< length attrs]"
  from assms have "?js \<noteq> []" using occurs_filter_nonempty by blast
  then have "last ?js \<in> set ?js" by (rule last_in_set)
  then show ?thesis by (simp add: lastIndexIn_def)
qed

lemma lastIndexIn_distinct:
  assumes "distinct (map name attrs)" and "i < length attrs"
  shows "lastIndexIn attrs (name (attrs ! i)) = i"
proof -
  let ?js = "filter (\<lambda>j. name (attrs ! j) = name (attrs ! i)) [0 ..< length attrs]"
  from assms have "i \<in> set ?js" by simp
  then have "?js \<noteq> []" by (metis empty_iff empty_set)
  then have "last ?js \<in> set ?js" by (rule last_in_set)
  then have "last ?js < length attrs" and "name (attrs ! last ?js) = name (attrs ! i)" by auto
  with assms have "last ?js = i"
    using nth_eq_iff_index_eq [of "map name attrs" "last ?js" i] by simp
  then show ?thesis by (simp add: lastIndexIn_def)
qed

lemma sortedAttrs_split:
  "sortedAttrs newAttrs originalAttrs =
     sort_key (\<lambda>a. lastIndexIn newAttrs (name a)) (filter (\<lambda>a. \<not> isOriginalName originalAttrs a) newAttrs)
     @ sort_key (\<lambda>a. originalPosition originalAttrs (name a)) (filter (isOriginalName originalAttrs) newAttrs)"
proof -
  let ?key = "orderKey (attrOrder newAttrs originalAttrs)"
  let ?P = "\<lambda>a. \<not> isOriginalName originalAttrs a"
  have keyO: "?key a = length newAttrs + originalPosition originalAttrs (name a)"
    if "isOriginalName originalAttrs a" for a
    using that by (simp add: orderKey_def isOriginalName_def attrOrder_original)
  have keyN: "?key a = lastIndexIn newAttrs (name a)"
    if "a \<in> set newAttrs" "\<not> isOriginalName originalAttrs a" for a
    using that by (simp add: orderKey_def isOriginalName_def attrOrder_new)
  have lt: "?key x < ?key y"
    if "x \<in> set newAttrs" "y \<in> set newAttrs" "?P x" "\<not> ?P y" for x y
  proof -
    have "?key x < length newAttrs"
      using that keyN [of x] lastIndexIn_less [of "name x" newAttrs] by simp
    moreover have "length newAttrs \<le> ?key y" using that keyO [of y] by simp
    ultimately show ?thesis by simp
  qed
  have "sort_key ?key newAttrs = sort_key ?key (filter ?P newAttrs) @ sort_key ?key (filter (isOriginalName originalAttrs) newAttrs)"
    using sort_key_partition [of newAttrs ?P ?key] lt by simp
  moreover have "sort_key ?key (filter ?P newAttrs)
      = sort_key (\<lambda>a. lastIndexIn newAttrs (name a)) (filter ?P newAttrs)"
    by (rule sort_key_cong_keys) (simp add: keyN)
  moreover have "sort_key ?key (filter (isOriginalName originalAttrs) newAttrs)
      = sort_key (\<lambda>a. originalPosition originalAttrs (name a)) (filter (isOriginalName originalAttrs) newAttrs)"
    by (rule sort_key_cong_keys) (simp add: keyO)
  ultimately show ?thesis by (simp add: sortedAttrs_def)
qed

lemma sorted_lastIndexIn:
  assumes "distinct (map name attrs)"
  shows "sorted (map (\<lambda>a. lastIndexIn attrs (name a)) attrs)"
proof -
  have "map (\<lambda>a. lastIndexIn attrs (name a)) attrs = [0 ..< length attrs]"
    by (rule nth_equalityI) (simp_all add: lastIndexIn_distinct [OF assms])
  then show ?thesis by simp
qed

lemma sortedAttrs_distinct:
  assumes "distinct (map name newAttrs)"
  shows "sortedAttrs newAttrs originalAttrs =
     filter (\<lambda>a. \<not> isOriginalName originalAttrs a) newAttrs
     @ sort_key (\<lambda>a. originalPosition originalAttrs (name a)) (filter (isOriginalName originalAttrs) newAttrs)"
proof -
  have "sorted (map (\<lambda>a. lastIndexIn newAttrs (name a)) (filter (\<lambda>a. \<not> isOriginalName originalAttrs a) newAttrs))"
    using sorted_lastIndexIn [OF assms] by (rule sorted_filter)
  then show ?thesis
    by (simp add: sortedAttrs_split sort_key_id_if_sorted)
qed


lemma sortAttrs_loop_eq:
  "i \<le> length xs \<Longrightarrow>
     sortAttrs_loop i xs =
       filter (\<lambda>n. \<not> RE_XMLNS_ATTR n) (take i xs) @ drop i xs @ rev (filter RE_XMLNS_ATTR (take i xs))"
proof (induction i arbitrary: xs)
  case 0
  then show ?case by simp
next
  case (Suc i)
  then have i: "i < length xs" by simp
  have tk: "take (Suc i) xs = take i xs @ [xs ! i]"
    using i by (simp add: take_Suc_conv_app_nth)
  have dr: "drop i xs = xs ! i # drop (Suc i) xs"
    using i by (simp add: Cons_nth_drop_Suc)
  show ?case
  proof (cases "RE_XMLNS_ATTR (xs ! i)")
    case True
    let ?ys = "take i xs @ drop (Suc i) xs @ [xs ! i]"
    have len: "i \<le> length ?ys" using i by simp
    have "sortAttrs_loop (Suc i) xs = sortAttrs_loop i ?ys"
      using True i by (simp add: Let_def)
    also have "\<dots> = filter (\<lambda>n. \<not> RE_XMLNS_ATTR n) (take i ?ys) @ drop i ?ys @ rev (filter RE_XMLNS_ATTR (take i ?ys))"
      using Suc.IH [OF len] .
    also have "take i ?ys = take i xs" using i by simp
    also have "drop i ?ys = drop (Suc i) xs @ [xs ! i]" using i by simp
    finally show ?thesis using True by (simp add: tk)
  next
    case False
    have "sortAttrs_loop (Suc i) xs = sortAttrs_loop i xs" using False by simp
    also have "\<dots> = filter (\<lambda>n. \<not> RE_XMLNS_ATTR n) (take i xs) @ drop i xs @ rev (filter RE_XMLNS_ATTR (take i xs))"
      using Suc.IH [of xs] i by simp
    finally show ?thesis using False by (simp add: tk dr)
  qed
qed

lemma sortAttrs_eq:
  "sortAttrs xs = filter (\<lambda>n. \<not> RE_XMLNS_ATTR n) xs @ rev (filter RE_XMLNS_ATTR xs)"
  by (simp add: sortAttrs_def sortAttrs_loop_eq)

lemma yieldsAt_append [simp]: "yieldsAt p (xs @ ys) = yieldsAt p xs @ yieldsAt p ys"
  by (induction p xs rule: yieldsAt.induct) auto

lemma yieldsAt_map_same:
  "(\<And>x. opPath (f x) = p) \<Longrightarrow> yieldsAt p (map (\<lambda>x. Yield (f x)) xs) = map f xs"
  by (induction xs) auto

lemma yieldsAt_map_other:
  "(\<And>x. opPath (f x) \<noteq> p) \<Longrightarrow> yieldsAt p (map (\<lambda>x. Yield (f x)) xs) = []"
  by (induction xs) auto

lemma yieldsAt_xlinkOps: "yieldsAt q (xlinkOps p attrs) = (if q = p then yieldsAt p (xlinkOps p attrs) else [])"
  by (auto simp: xlinkOps_def)

lemma yieldsAt_attrOps: "yieldsAt q (attrOps p attrs) = (if q = p then yieldsAt p (attrOps p attrs) else [])"
  by (auto simp: attrOps_def yieldsAt_map_other)

lemma yieldsAt_classOps: "yieldsAt q (classOps p cls) = (if q = p then yieldsAt p (classOps p cls) else [])"
  by (auto simp: classOps_def yieldsAt_map_other)

lemma yieldsAt_styleOps: "yieldsAt q (styleOps p st) = (if q = p then yieldsAt p (styleOps p st) else [])"
  by (auto simp: styleOps_def yieldsAt_map_other split: option.splits)

lemma yieldsAt_gradientOps:
  "yieldsAt q (gradientOps p nm attrs kids) = (if q = p then yieldsAt p (gradientOps p nm attrs kids) else [])"
  by (auto simp: gradientOps_def inlineGradient_def Let_def split: option.splits)

lemma yieldsAt_unwrapOps:
  "yieldsAt q (unwrapOps pe p nm) = (if q = p then yieldsAt p (unwrapOps pe p nm) else [])"
  by (auto simp: unwrapOps_def)

lemma yieldsAt_ownEvents_other: "q \<noteq> p \<Longrightarrow> yieldsAt q (ownEvents pe p n) = []"
  by (cases n)
     (simp_all add: ownEvents_def yieldsAt_xlinkOps yieldsAt_attrOps yieldsAt_classOps
        yieldsAt_styleOps yieldsAt_gradientOps yieldsAt_unwrapOps)

lemma yieldsAt_shorter:
  "length q \<le> length b \<Longrightarrow> yieldsAt q (cleaningOps_children pe b i cs) = []"
  "length q < length p \<Longrightarrow> yieldsAt q (cleaningOps_child pe p c) = []"
proof (induction pe b i cs and pe p c arbitrary: q and q rule: cleaningOps_children_cleaningOps_child.induct)
  case (1 pe p i)
  then show ?case by simp
next
  case (2 pe p i c cs)
  then show ?case by simp
next
  case (3 pe p k d)
  then show ?case by auto
next
  case (4 pe p nm ns attrs cls st kids)
  then have ne: "q \<noteq> p" by auto
  have "yieldsAt q (cleaningOps_children True p 0 kids) = []"
    using 4 by simp
  with ne show ?case
    by (simp add: yieldsAt_xlinkOps yieldsAt_attrOps yieldsAt_classOps
        yieldsAt_styleOps yieldsAt_gradientOps yieldsAt_unwrapOps)
qed


lemma yieldsAt_outside:
  "(\<And>j r. q = b @ j # r \<Longrightarrow> \<not> (i \<le> j \<and> j < i + length cs))
     \<Longrightarrow> yieldsAt q (cleaningOps_children pe b i cs) = []"
  "(\<And>r. q \<noteq> p @ r) \<Longrightarrow> yieldsAt q (cleaningOps_child pe p c) = []"
proof (induction pe b i cs and pe p c arbitrary: q and q rule: cleaningOps_children_cleaningOps_child.induct)
  case (1 pe p i)
  then show ?case by simp
next
  case (2 pe p i c cs)
  have a: "yieldsAt q (cleaningOps_child pe (p @ [i]) c) = []"
  proof (rule "2.IH"(1))
    fix r show "q \<noteq> (p @ [i]) @ r"
      using "2.prems" [of i r] by auto
  qed
  have b: "yieldsAt q (cleaningOps_children pe p (Suc i) cs) = []"
  proof (rule "2.IH"(2))
    fix j r assume "q = p @ j # r"
    from "2.prems" [OF this] show "\<not> (Suc i \<le> j \<and> j < Suc i + length cs)" by auto
  qed
  from a b show ?case by simp
next
  case (3 pe p k d)
  from "3.prems" [of "[]"] show ?case by simp
next
  case (4 pe p nm ns attrs cls st kids)
  from "4.prems" [of "[]"] have ne: "q \<noteq> p" by simp
  have "yieldsAt q (cleaningOps_children True p 0 kids) = []"
  proof (rule "4.IH")
    fix j r assume "q = p @ j # r"
    with "4.prems" [of "j # r"] show "\<not> (0 \<le> j \<and> j < 0 + length kids)" by simp
  qed
  with ne show ?case
    by (simp add: yieldsAt_xlinkOps yieldsAt_attrOps yieldsAt_classOps
        yieldsAt_styleOps yieldsAt_gradientOps yieldsAt_unwrapOps)
qed

lemma nodeAt_Nil [simp]: "nodeAt p [] = None"
proof (cases p)
  case Nil
  then show ?thesis by simp
next
  case (Cons i q)
  then show ?thesis by (cases q) simp_all
qed

lemma yieldsAt_located:
  "i \<le> j \<Longrightarrow> j < i + length cs \<Longrightarrow>
     yieldsAt (b @ j # r) (cleaningOps_children pe b i cs) =
       (case nodeAt ((j - i) # r) cs of
          None \<Rightarrow> []
        | Some n \<Rightarrow> yieldsAt (b @ j # r) (ownEvents (pe \<or> r \<noteq> []) (b @ j # r) n))"
  "yieldsAt (p @ r) (cleaningOps_child pe p c) =
       (case r of
          [] \<Rightarrow> yieldsAt p (ownEvents pe p c)
        | j # r' \<Rightarrow>
            (case nodeAt (j # r') (childrenOf c) of
               None \<Rightarrow> []
             | Some n \<Rightarrow> yieldsAt (p @ r) (ownEvents True (p @ r) n)))"
proof (induction pe b i cs and pe p c arbitrary: j r and r rule: cleaningOps_children_cleaningOps_child.induct)
  case (1 pe p i)
  then show ?case by simp
next
  case (2 pe b i c cs)
  show ?case
  proof (cases "j = i")
    case True
    have later: "yieldsAt (b @ j # r) (cleaningOps_children pe b (Suc i) cs) = []"
      by (rule yieldsAt_outside(1)) (use True in auto)
    have "yieldsAt (b @ j # r) (cleaningOps_child pe (b @ [i]) c)
        = yieldsAt ((b @ [i]) @ r) (cleaningOps_child pe (b @ [i]) c)"
      using True by simp
    also have "\<dots> = (case r of
          [] \<Rightarrow> yieldsAt (b @ [i]) (ownEvents pe (b @ [i]) c)
        | j' # r' \<Rightarrow>
            (case nodeAt (j' # r') (childrenOf c) of
               None \<Rightarrow> []
             | Some n \<Rightarrow> yieldsAt ((b @ [i]) @ r) (ownEvents True ((b @ [i]) @ r) n)))"
      by (rule "2.IH"(1))
    finally show ?thesis using True later
      by (cases r) (simp_all split: option.splits)
  next
    case False
    with "2.prems" have lt: "Suc i \<le> j" "j < Suc i + length cs" by auto
    have first: "yieldsAt (b @ j # r) (cleaningOps_child pe (b @ [i]) c) = []"
      by (rule yieldsAt_outside(2)) (use False in auto)
    have nd: "nodeAt ((j - i) # r) (c # cs) = nodeAt ((j - Suc i) # r) cs"
      using lt by (cases r) (auto simp: Suc_diff_le nth_Cons')
    from "2.IH"(2) [OF lt] first nd show ?thesis by simp
  qed
next
  case (3 pe p k d)
  then show ?case by (cases r) (auto simp: ownEvents_def)
next
  case (4 pe p nm ns attrs cls st kids)
  show ?case
  proof (cases r)
    case Nil
    have "yieldsAt p (cleaningOps_children True p 0 kids) = []"
      by (rule yieldsAt_shorter(1)) simp
    then show ?thesis using Nil by (simp add: ownEvents_def)
  next
    case (Cons j r')
    have ne: "p @ j # r' \<noteq> p" by simp
    show ?thesis
    proof (cases "j < length kids")
      case True
      from "4.IH" [of j r'] True
      have "yieldsAt (p @ j # r') (cleaningOps_children True p 0 kids) =
         (case nodeAt (j # r') kids of
            None \<Rightarrow> []
          | Some n \<Rightarrow> yieldsAt (p @ j # r') (ownEvents True (p @ j # r') n))"
        by (simp split: option.splits)
      with ne Cons show ?thesis
        by (simp add: yieldsAt_xlinkOps yieldsAt_attrOps yieldsAt_classOps
            yieldsAt_styleOps yieldsAt_gradientOps yieldsAt_unwrapOps cong: option.case_cong)
    next
      case False
      have "yieldsAt (p @ j # r') (cleaningOps_children True p 0 kids) = []"
        by (rule yieldsAt_outside(1)) (use False in auto)
      moreover have "nodeAt (j # r') kids = None"
        using False by (cases r') auto
      ultimately show ?thesis using ne Cons
        by (simp add: yieldsAt_xlinkOps yieldsAt_attrOps yieldsAt_classOps
            yieldsAt_styleOps yieldsAt_gradientOps yieldsAt_unwrapOps cong: option.case_cong)
    qed
  qed
qed

lemma untilThrow_id: "Throw \<notin> set es \<Longrightarrow> untilThrow es = es"
  by (induction es rule: untilThrow.induct) auto

lemma untilThrow_no_Throw: "Throw \<notin> set (untilThrow es) \<Longrightarrow> untilThrow es = es"
  by (induction es rule: untilThrow.induct) auto

lemma yieldsAt_document:
  "yieldsAt p (cleaningOps_children False [] 0 doc) =
     (case nodeAt p doc of
        None \<Rightarrow> []
      | Some n \<Rightarrow> yieldsAt p (ownEvents (2 \<le> length p) p n))"
proof (cases p)
  case Nil
  then show ?thesis by (simp add: yieldsAt_shorter(1))
next
  case (Cons j r)
  show ?thesis
  proof (cases "j < length doc")
    case True
    have le: "(2 \<le> length p) = (r \<noteq> [])" using Cons by (cases r) auto
    from yieldsAt_located(1) [of 0 j doc "[]" r False] True
    show ?thesis using Cons le by (simp cong: option.case_cong)
  next
    case False
    have "yieldsAt p (cleaningOps_children False [] 0 doc) = []"
      by (rule yieldsAt_outside(1)) (use False Cons in auto)
    moreover have "nodeAt p doc = None" using False Cons by (cases r) auto
    ultimately show ?thesis by simp
  qed
qed

lemma yieldsAt_cleaningOps:
  assumes "Throw \<notin> set (cleaningOps doc)"
  shows "yieldsAt p (cleaningOps doc) =
     (case nodeAt p doc of
        None \<Rightarrow> []
      | Some n \<Rightarrow> yieldsAt p (ownEvents (2 \<le> length p) p n))"
proof -
  from assms have "cleaningOps doc = cleaningOps_children False [] 0 doc"
    unfolding cleaningOps_def by (rule untilThrow_no_Throw)
  then show ?thesis by (simp only: yieldsAt_document)
qed

lemma map_filter_append: "List.map_filter f (xs @ ys) = List.map_filter f xs @ List.map_filter f ys"
  by (simp add: List.map_filter_def)

lemma removed_attrOps:
  "List.map_filter removedAttribute (yieldsAt p (attrOps p attrs))
     = filter (\<lambda>n. n \<notin> set doNotRemoveAttrs) (sortAttrs (map attrName attrs))"
proof -
  have "yieldsAt p (attrOps p attrs)
      = map (RemoveAttribute p) (filter (\<lambda>n. n \<notin> set doNotRemoveAttrs) (sortAttrs (map attrName attrs)))"
    unfolding attrOps_def by (rule yieldsAt_map_same) simp
  then show ?thesis
    by (simp add: List.map_filter_def comp_def)
qed

lemma removed_xlinkOps: "List.map_filter removedAttribute (yieldsAt p (xlinkOps p attrs)) = []"
  by (simp add: xlinkOps_def List.map_filter_def)

lemma removed_classOps: "List.map_filter removedAttribute (yieldsAt p (classOps p cls)) = []"
  by (simp add: classOps_def List.map_filter_def yieldsAt_map_same [where f = "RemoveClass p"])

lemma removed_styleOps: "List.map_filter removedAttribute (yieldsAt p (styleOps p st)) = []"
  by (cases st) (simp_all add: styleOps_def List.map_filter_def yieldsAt_map_same [where f = "RemoveStyleProperty p"])

lemma removed_gradientOps:
  "List.map_filter removedAttribute (yieldsAt p (gradientOps p nm attrs kids)) = []"
  by (simp add: gradientOps_def inlineGradient_def Let_def List.map_filter_def split: option.splits)

lemma removed_unwrapOps: "List.map_filter removedAttribute (yieldsAt p (unwrapOps pe p nm)) = []"
  by (simp add: unwrapOps_def List.map_filter_def)

lemma removed_ownEvents:
  "List.map_filter removedAttribute (yieldsAt p (ownEvents pe p (Element nm ns attrs cls st kids)))
     = filter (\<lambda>n. n \<notin> set doNotRemoveAttrs) (sortAttrs (map attrName attrs))"
proof -
  have a: "List.map_filter removedAttribute (yieldsAt p (if pe then [Yield (RemoveChild p)] else [])) = []"
    by (simp add: List.map_filter_def)
  show ?thesis
    unfolding ownEvents_def
    by (simp only: node.case yieldsAt_append map_filter_append a removed_attrOps removed_xlinkOps
        removed_classOps removed_styleOps removed_gradientOps removed_unwrapOps append_Nil append_Nil2)
qed

lemma getAttribute_setAttribute_same [simp]:
  "getAttribute (setAttribute qn v attrs) qn = Some v"
  by (induction attrs) (simp_all add: getAttribute_def)

lemma getAttribute_setAttribute_other [simp]:
  "qn' \<noteq> qn \<Longrightarrow> getAttribute (setAttribute qn' v attrs) qn = getAttribute attrs qn"
  by (induction attrs) (simp_all add: getAttribute_def)


lemma selects_setAttribute_same:
  "list_ex (\<lambda>a. attrNamespaceURI a = None \<and> attrLocalName a = an) attrs \<Longrightarrow>
     list_ex (\<lambda>a. attrNamespaceURI a = None \<and> attrLocalName a = an) (setAttribute qn v attrs)"
  by (induction attrs) auto
















lemma rootIdentity_Nil [simp]: "rootIdentity [] = None"
  by (simp add: rootIdentity_def documentElement_def)




lemma identityOf_mapAttributes [simp]: "identityOf (mapAttributes f n) = identityOf n"
  by (cases n) simp_all

lemma identityOf_withAttributes [simp]: "identityOf (withAttributes f n) = identityOf n"
  by (cases n) simp_all

lemma identityOf_withClassList [simp]: "identityOf (withClassList f n) = identityOf n"
  by (cases n) simp_all

lemma identityOf_withStyle [simp]: "identityOf (withStyle f n) = identityOf n"
  by (cases n) simp_all
















lemma reAttr_tail_le: "reAttr_tail t = Some m \<Longrightarrow> m \<le> length t"
proof -
  assume a: "reAttr_tail t = Some m"
  then obtain c t2 where d1: "dropWhile isSpace t = c # t2"
    by (cases "dropWhile isSpace t") (auto simp: reAttr_tail_def)
  with a obtain q t4 where d2: "dropWhile isSpace t2 = q # t4" and qin: "q \<in> set t4"
    and m: "m = length t - length t4 + length (takeWhile (\<lambda>x. x \<noteq> q) t4) + 1"
    by (cases "dropWhile isSpace t2")
       (simp_all add: reAttr_tail_def del: dropWhile_eq_Nil_conv split: if_splits)
  have "length (dropWhile isSpace t2) \<le> length t2" by (rule length_dropWhile_le)
  moreover have "length (dropWhile isSpace t) \<le> length t" by (rule length_dropWhile_le)
  ultimately have l: "length t4 + 2 \<le> length t" using d1 d2 by simp
  from qin have "takeWhile (\<lambda>x. x \<noteq> q) t4 \<noteq> t4"
    by (metis (mono_tags, lifting) takeWhile_eq_all_conv)
  then have "length (takeWhile (\<lambda>x. x \<noteq> q) t4) < length t4"
    by (metis length_takeWhile_le le_neq_implies_less takeWhile_eq_take take_all)
  with l m show ?thesis by simp
qed

lemma reAttr_tail_Nil: "reAttr_tail [] = None"
  by (simp add: reAttr_tail_def)

lemma reAttr_name_le:
  "reAttr_name w r k = Some (nm, len) \<Longrightarrow> len \<le> w + length r"
proof (induction k)
  case 0
  then show ?case by simp
next
  case (Suc k)
  show ?case
  proof (cases "reAttr_tail (drop (Suc k) r)")
    case None
    with Suc show ?thesis by simp
  next
    case (Some m)
    then have "drop (Suc k) r \<noteq> []" using reAttr_tail_Nil by auto
    then have k: "Suc k \<le> length r" by simp
    from reAttr_tail_le [OF Some] have "m \<le> length r - Suc k" by simp
    with k Some Suc.prems show ?thesis by auto
  qed
qed

lemma reAttr_exec_le:
  assumes "reAttr_exec s = Some (nm, len)"
  shows "len \<le> length s"
proof -
  from assms have "reAttr_name (length (takeWhile isSpace s)) (dropWhile isSpace s)
           (length (takeWhile isNameChar (dropWhile isSpace s))) = Some (nm, len)"
    by (auto simp: reAttr_exec_def Let_def split: if_splits)
  from reAttr_name_le [OF this]
  have "len \<le> length (takeWhile isSpace s) + length (dropWhile isSpace s)" .
  also have "\<dots> = length (takeWhile isSpace s @ dropWhile isSpace s)"
    by (simp only: length_append)
  also have "\<dots> = length s" by (simp only: takeWhile_dropWhile_id)
  finally show ?thesis .
qed

lemma getAttrs_loop_contiguous:
  "getAttrs_loop pos rest = a # as \<Longrightarrow>
     start a = pos \<and>
     (\<exists>n\<le>length rest. endIdx (last (a # as)) = pos + n \<and> concat (map raw (a # as)) = take n rest)"
proof (induction pos rest arbitrary: a as rule: getAttrs_loop.induct)
  case (1 pos rest)
  from "1.prems" obtain nm len where ex: "reAttr_exec rest = Some (nm, len)"
    by (cases "reAttr_exec rest") auto
  with "1.prems" have a: "a = \<lparr>name = nm, raw = take len rest, start = pos, endIdx = pos + len\<rparr>"
    and as: "as = getAttrs_loop (pos + len) (drop len rest)"
    by simp_all
  from reAttr_exec_le [OF ex] have len: "len \<le> length rest" .
  show ?case
  proof (cases as)
    case Nil
    with a len show ?thesis by (intro conjI exI [of _ len]) simp_all
  next
    case (Cons b bs)
    with as have "getAttrs_loop (pos + len) (drop len rest) = b # bs" by simp
    from "1.IH" [OF ex refl this] obtain n where n: "n \<le> length (drop len rest)"
      and e: "endIdx (last (b # bs)) = pos + len + n"
      and c: "concat (map raw (b # bs)) = take n (drop len rest)"
      by auto
    have "take len rest @ take n (drop len rest) = take (len + n) rest"
      by (simp add: take_add)
    with a Cons n e c len show ?thesis
      by (intro conjI exI [of _ "len + n"]) simp_all
  qed
qed

lemma indexOf_bound:
  "indexOf s pat = Some st \<Longrightarrow> st + length pat \<le> length s"
proof -
  assume "indexOf s pat = Some st"
  then obtain i where i: "i < length [0 ..< Suc (length s)]"
    and t: "take (length pat) (drop ([0 ..< Suc (length s)] ! i) s) = pat"
    and st: "st = [0 ..< Suc (length s)] ! i"
    unfolding indexOf_def find_Some_iff by blast
  from i st have le: "st \<le> length s" by (simp add: nth_upt del: upt_Suc)
  from t st have "length (take (length pat) (drop st s)) = length pat" by simp
  then have "length pat \<le> length s - st" by simp
  with le show ?thesis by simp
qed

lemma mset_concat_map_perm:
  "mset xs = mset ys \<Longrightarrow> mset (concat (map f xs)) = mset (concat (map f ys))"
proof -
  assume a: "mset xs = mset ys"
  have "mset (concat (map f zs)) = (\<Sum>z\<in>#mset zs. mset (f z))" for zs
    by (induction zs) simp_all
  with a show ?thesis by simp
qed

lemma fixAttrOrder_shape:
  assumes "getAttrs svgCode \<noteq> []"
  shows "\<exists>ss n. ss + n \<le> length svgCode
           \<and> concat (map raw (getAttrs svgCode)) = take n (drop ss svgCode)
           \<and> fixAttrOrder svgCode originalAttrs =
               take ss svgCode @ concat (map raw (sortedAttrs (getAttrs svgCode) originalAttrs))
               @ drop (ss + n) svgCode"
proof -
  from assms obtain st where st: "indexOf svgCode ''<svg'' = Some st"
    and g: "getAttrs svgCode = getAttrs_loop (st + 4) (drop (st + 4) svgCode)"
    by (cases "indexOf svgCode ''<svg''") (auto simp: getAttrs_def)
  from assms obtain a as where A: "getAttrs svgCode = a # as" by (cases "getAttrs svgCode") auto
  with g have "getAttrs_loop (st + 4) (drop (st + 4) svgCode) = a # as" by simp
  from getAttrs_loop_contiguous [OF this] obtain n where s: "start a = st + 4"
    and n: "n \<le> length (drop (st + 4) svgCode)"
    and e: "endIdx (last (a # as)) = st + 4 + n"
    and c: "concat (map raw (a # as)) = take n (drop (st + 4) svgCode)"
    by auto
  from indexOf_bound [OF st] have b: "st + 4 \<le> length svgCode" by simp
  have l: "(a # as) ! (length (a # as) - 1) = last (a # as)"
    by (simp add: last_conv_nth)
  have "fixAttrOrder svgCode originalAttrs =
      take (st + 4) svgCode @ concat (map raw (sortedAttrs (a # as) originalAttrs))
      @ drop (st + 4 + n) svgCode"
    unfolding fixAttrOrder_def Let_def A using s e l by simp
  with n b c A show ?thesis
    by (intro exI [of _ "st + 4"] exI [of _ n]) simp
qed

lemma fixAttrOrder_same_characters: "mset (fixAttrOrder svgCode originalAttrs) = mset svgCode"
proof (cases "getAttrs svgCode = []")
  case True
  then show ?thesis by (simp add: fixAttrOrder_def)
next
  case False
  from fixAttrOrder_shape [OF False, of originalAttrs] obtain ss n where b: "ss + n \<le> length svgCode"
    and c: "concat (map raw (getAttrs svgCode)) = take n (drop ss svgCode)"
    and f: "fixAttrOrder svgCode originalAttrs =
               take ss svgCode @ concat (map raw (sortedAttrs (getAttrs svgCode) originalAttrs))
               @ drop (ss + n) svgCode"
    by blast
  have "mset (concat (map raw (sortedAttrs (getAttrs svgCode) originalAttrs)))
      = mset (concat (map raw (getAttrs svgCode)))"
    by (rule mset_concat_map_perm) (simp add: sortedAttrs_def)
  then have "mset (fixAttrOrder svgCode originalAttrs)
      = mset (take ss svgCode @ take n (drop ss svgCode) @ drop (ss + n) svgCode)"
    by (simp add: f c)
  also have "take ss svgCode @ take n (drop ss svgCode) @ drop (ss + n) svgCode = svgCode"
    by (metis append_take_drop_id drop_drop add.commute)
  finally show ?thesis .
qed

lemma fixAttrOrder_same_length: "length (fixAttrOrder svgCode originalAttrs) = length svgCode"
  using fixAttrOrder_same_characters [of svgCode originalAttrs] by (rule mset_eq_length)












lemma scan_skipped:
  "scan e comparators ll svgCode doc (map Yield pre @ es) n (n + length pre)
     = scan e comparators ll svgCode doc es (n + length pre) (n + length pre)"
proof (induction pre arbitrary: n)
  case Nil
  then show ?case by simp
next
  case (Cons c pre)
  from Cons [of "Suc n"] show ?case by simp
qed

section \<open>C1: the attribute-order restorer\<close>

text \<open>
  C1, as amended. Let \<open>newAttrs\<close> be the attributes that \<open>getAttrs\<close> finds in the final
  markup, with pairwise distinct names, and \<open>reordered\<close> the order in which
  \<open>fixAttrOrder\<close> writes them. The attributes whose name does not occur among the original
  ones keep their order; those whose name occurs there are in the order of their
  positions among the original attributes; all of the former come before all of the
  latter; the attributes are the same; and the result is the final markup with the
  span of its attributes replaced by the raw texts in the new order.
\<close>

theorem fixAttrOrder_restores_order:
  assumes "distinct (map name (getAttrs svgCode))"
  shows "let newAttrs = getAttrs svgCode;
             reordered = sortedAttrs newAttrs originalAttrs
         in filter (\<lambda>a. \<not> isOriginalName originalAttrs a) reordered
              = filter (\<lambda>a. \<not> isOriginalName originalAttrs a) newAttrs
          \<and> sorted (map (\<lambda>a. originalPosition originalAttrs (name a))
                       (filter (isOriginalName originalAttrs) reordered))
          \<and> reordered = filter (\<lambda>a. \<not> isOriginalName originalAttrs a) reordered
                          @ filter (isOriginalName originalAttrs) reordered
          \<and> mset reordered = mset newAttrs
          \<and> fixAttrOrder svgCode originalAttrs =
                (if newAttrs = [] then svgCode
                 else take (start (hd newAttrs)) svgCode
                      @ concat (map raw reordered)
                      @ drop (endIdx (last newAttrs)) svgCode)"
proof -
  let ?new = "getAttrs svgCode"
  let ?R = "sortedAttrs ?new originalAttrs"
  let ?O = "isOriginalName originalAttrs"
  let ?N = "\<lambda>a. \<not> isOriginalName originalAttrs a"
  let ?S = "sort_key (\<lambda>a. originalPosition originalAttrs (name a)) (filter ?O ?new)"
  have R: "?R = filter ?N ?new @ ?S"
    by (rule sortedAttrs_distinct [OF assms])
  have setS: "set ?S = set (filter ?O ?new)" by simp
  have fN: "filter ?N ?S = []"
    unfolding filter_empty_conv setS by simp
  have fO: "filter ?O ?S = ?S"
    unfolding filter_id_conv setS by simp
  have 1: "filter ?N ?R = filter ?N ?new" by (simp only: R filter_append fN) simp
  have FO: "filter ?O ?R = ?S" by (simp only: R filter_append fO) simp
  have 2: "sorted (map (\<lambda>a. originalPosition originalAttrs (name a)) (filter ?O ?R))"
    by (simp only: FO sorted_sort_key)
  have 3: "?R = filter ?N ?R @ filter ?O ?R"
    using R 1 FO by simp
  have 4: "mset ?R = mset ?new" by (simp add: sortedAttrs_def)
  have 5: "fixAttrOrder svgCode originalAttrs =
                (if ?new = [] then svgCode
                 else take (start (hd ?new)) svgCode
                      @ concat (map raw ?R)
                      @ drop (endIdx (last ?new)) svgCode)"
    by (simp add: fixAttrOrder_def Let_def hd_conv_nth last_conv_nth)
  from 1 2 3 4 5 show ?thesis by (simp only: Let_def)
qed

lemma demoFinal_distinct: "distinct (map name (getAttrs demoFinal))"
  by code_simp

text \<open>The theorem at a final markup with the attributes \<open>xmlns a c b\<close>, the original being \<open>b a\<close>.\<close>

theorem fixAttrOrder_restores_order_witness:
  "distinct (map name (getAttrs demoFinal)) \<and>
   (let newAttrs = getAttrs demoFinal;
        reordered = sortedAttrs newAttrs (getAttrs demoOriginal)
    in filter (\<lambda>a. \<not> isOriginalName (getAttrs demoOriginal) a) reordered
         = filter (\<lambda>a. \<not> isOriginalName (getAttrs demoOriginal) a) newAttrs
     \<and> sorted (map (\<lambda>a. originalPosition (getAttrs demoOriginal) (name a))
                  (filter (isOriginalName (getAttrs demoOriginal)) reordered))
     \<and> reordered = filter (\<lambda>a. \<not> isOriginalName (getAttrs demoOriginal) a) reordered
                     @ filter (isOriginalName (getAttrs demoOriginal)) reordered
     \<and> mset reordered = mset newAttrs
     \<and> fixAttrOrder demoFinal (getAttrs demoOriginal) =
           (if newAttrs = [] then demoFinal
            else take (start (hd newAttrs)) demoFinal
                 @ concat (map raw reordered)
                 @ drop (endIdx (last newAttrs)) demoFinal))"
  using demoFinal_distinct fixAttrOrder_restores_order [OF demoFinal_distinct, of "getAttrs demoOriginal"]
  by (rule conjI)

text \<open>
  C1 as stated fails: \<open>xmlns\<close> and \<open>c\<close> are new, \<open>b\<close> and \<open>a\<close> occur in the original,
  and the new ones are written first.
\<close>

theorem fixAttrOrder_original_first_counterexample:
  "map name (sortedAttrs (getAttrs demoFinal) (getAttrs demoOriginal)) = [''xmlns'', ''c'', ''b'', ''a'']
   \<and> ''xmlns'' \<notin> set (map name (getAttrs demoOriginal))
   \<and> ''a'' \<in> set (map name (getAttrs demoOriginal))
   \<and> fixAttrOrder demoFinal (getAttrs demoOriginal) = ''<svg xmlns=\"u\" c=\"3\" b=\"2\" a=\"1\"/>''"
  by code_simp

section \<open>C2: the length of the result\<close>





section \<open>C9: running on the own result\<close>




section \<open>C3: the acceptance of a candidate\<close>



section \<open>C4: the skip counter\<close>

text \<open>
  C4. Let the walk of one iteration start with \<open>skipOps\<close> candidates that are skipped
  (\<open>pre\<close>, so the skip counter is \<open>length pre\<close>) and reach the candidate \<open>c\<close>, whose
  number is \<open>length pre\<close>. Then:
  \<^item> if the markup has not changed, the walk goes on behind \<open>c\<close> with the counter at the
    number of \<open>c\<close> plus 1 (the counter is set before the candidate runs);
  \<^item> if the candidate is accepted, the iteration ends with the new markup and the counter
    at \<^verbatim>\<open>max(opNumber - backtrack, 0)\<close>, which is 0 for \<^verbatim>\<open>Infinity\<close>;
  \<^item> if it is rejected, the iteration ends with the old markup and the counter at the
    number of \<open>c\<close> plus 1.
  The next iteration starts with the markup and the counter of the \<open>Restart\<close>.
\<close>

theorem scan_skip_counter:
  "scan e comparators ll svgCode doc (map Yield pre @ Yield c # es) 0 (length pre) =
     (let opNumber = length pre;
          doc' = fst (applyOp c doc);
          backtrack = fst (snd (applyOp c doc));
          forceLossless = snd (snd (applyOp c doc));
          newSvgCode = serializeToString e doc'
      in if newSvgCode = svgCode
         then scan e comparators ll svgCode doc' es (opNumber + 1) (opNumber + 1)
         else if assertVisuallySame newSvgCode svgCode comparators (ll \<or> forceLossless)
         then Restart newSvgCode
                (case backtrack of
                   enat b \<Rightarrow> nat (max (int opNumber - int b) 0)
                 | \<infinity> \<Rightarrow> 0)
         else Restart svgCode (opNumber + 1))
   \<and> (parse e svgCode = Inr doc \<and> scan e comparators ll svgCode doc (cleaningOps doc) 0 skipOps
          = Restart svgCode' skipOps'
        \<longrightarrow> unjunk_loop (Suc n) e comparators ll svgCode skipOps
          = unjunk_loop n e comparators ll svgCode' skipOps')"
proof -
  have "scan e comparators ll svgCode doc (map Yield pre @ Yield c # es) 0 (0 + length pre)
      = scan e comparators ll svgCode doc (Yield c # es) (0 + length pre) (0 + length pre)"
    by (rule scan_skipped)
  then show ?thesis
    by (cases "applyOp c doc") (simp add: attemptOp_def skipAfter_def Let_def)
qed

text \<open>
  The theorem at the fourth iteration on \<open>strokeDoc\<close>: the first two candidates are
  skipped, removing \<^verbatim>\<open>stroke\<close> is accepted, and the counter is 2 again.
\<close>

theorem scan_skip_counter_witness:
  "parse demoEnv (demoSerialize strokeDoc) = Inr strokeDoc
   \<and> cleaningOps strokeDoc =
       map Yield [RemoveChild [0, 0], RemoveAttribute [0, 0] ''stroke-width'']
       @ Yield (RemoveAttribute [0, 0] ''stroke'') # []
   \<and> scan demoEnv [demoComparator 2, demoComparator 2] True (demoSerialize strokeDoc) strokeDoc
        (cleaningOps strokeDoc) 0 2
       = Restart (demoSerialize strokeWidthDoc) 2
   \<and> unjunk_loop (Suc 5) demoEnv [demoComparator 2, demoComparator 2] True (demoSerialize strokeDoc) 2
       = unjunk_loop 5 demoEnv [demoComparator 2, demoComparator 2] True (demoSerialize strokeWidthDoc) 2"
proof -
  have p: "parse demoEnv (demoSerialize strokeDoc) = Inr strokeDoc"
    by code_simp
  have g: "cleaningOps strokeDoc =
       map Yield [RemoveChild [0, 0], RemoveAttribute [0, 0] ''stroke-width'']
       @ Yield (RemoveAttribute [0, 0] ''stroke'') # []"
    by code_simp
  note T = scan_skip_counter [of demoEnv "[demoComparator 2, demoComparator 2]" True
      "demoSerialize strokeDoc" strokeDoc
      "[RemoveChild [0, 0], RemoveAttribute [0, 0] ''stroke-width'']"
      "RemoveAttribute [0, 0] ''stroke''" "[]" 2 "demoSerialize strokeWidthDoc" 2 5]
  have v: "(let opNumber = length [RemoveChild [0, 0], RemoveAttribute [0, 0] ''stroke-width''];
          doc' = fst (applyOp (RemoveAttribute [0, 0] ''stroke'') strokeDoc);
          backtrack = fst (snd (applyOp (RemoveAttribute [0, 0] ''stroke'') strokeDoc));
          forceLossless = snd (snd (applyOp (RemoveAttribute [0, 0] ''stroke'') strokeDoc));
          newSvgCode = serializeToString demoEnv doc'
      in if newSvgCode = demoSerialize strokeDoc
         then scan demoEnv [demoComparator 2, demoComparator 2] True (demoSerialize strokeDoc) doc' []
                (opNumber + 1) (opNumber + 1)
         else if assertVisuallySame newSvgCode (demoSerialize strokeDoc)
                   [demoComparator 2, demoComparator 2] (True \<or> forceLossless)
         then Restart newSvgCode
                (case backtrack of
                   enat b \<Rightarrow> nat (max (int opNumber - int b) 0)
                 | \<infinity> \<Rightarrow> 0)
         else Restart (demoSerialize strokeDoc) (opNumber + 1))
      = Restart (demoSerialize strokeWidthDoc) 2"
    by code_simp
  from T [THEN conjunct1] v g
  have s: "scan demoEnv [demoComparator 2, demoComparator 2] True (demoSerialize strokeDoc) strokeDoc
        (cleaningOps strokeDoc) 0 2
       = Restart (demoSerialize strokeWidthDoc) 2"
    by simp
  from T [THEN conjunct2] p s
  have "unjunk_loop (Suc 5) demoEnv [demoComparator 2, demoComparator 2] True (demoSerialize strokeDoc) 2
       = unjunk_loop 5 demoEnv [demoComparator 2, demoComparator 2] True (demoSerialize strokeWidthDoc) 2"
    by blast
  with p g s show ?thesis by blast
qed

section \<open>C5: the root element\<close>




section \<open>C6: failures\<close>

text \<open>
  C6. The markup of \<open>foreignDoc\<close> parses: it is a well-formed document whose root is
  \<^verbatim>\<open>svg\<close> in the SVG namespace. The removal of the style sheet, of its rule and of
  the foreign element are rejected, each changing the picture. In the fourth iteration
  the generator goes on behind the removal of the foreign element, reaches
  \<^verbatim>\<open>Array.from(el.style)\<close> for it and throws; \<^verbatim>\<open>opGenerator.next()\<close> is outside of the
  \<^verbatim>\<open>try\<close>, and \<open>unjunk\<close> fails with a \<^verbatim>\<open>TypeError\<close>.
\<close>

theorem unjunk_fails_on_foreign_element:
  "parse demoEnv (demoSerialize foreignDoc) = Inr foreignDoc
   \<and> demoSerialize foreignDoc =
       ''<svg xmlns=\"http://www.w3.org/2000/svg\" width=\"20\" height=\"20\"><style>rect:nth-child(3){fill:red}</style><a xmlns=\"urn:a\"/><rect width=\"10\" height=\"10\"/></svg>''
   \<and> cleaningOps foreignDoc =
       [Yield (RemoveChild [0, 0]), Yield (RemoveChild [0, 0, 0]), Yield (RemoveChild [0, 1]), Throw]
   \<and> unjunk demoEnv (demoSerialize foreignDoc) demoLossless = Inl TypeError"
  by code_simp

section \<open>C7: the gradient candidate\<close>




section \<open>C10: the defaults of the gradient candidate\<close>



section \<open>C8: the attribute-removal candidates of an element\<close>

text \<open>
  C8, as amended. For the element at path \<open>p\<close> of a document on which the generator does
  not throw, the names of the attribute-removal candidates for that element, in the
  order in which they are yielded, are the names of its attributes outside
  \<open>doNotRemoveAttrs\<close>, each as often as it occurs: first those that are not namespace
  declarations, in their order, then the namespace declarations, in the reverse of
  their order. (The hypothesis on the names leaves out the names that begin with
  \<^verbatim>\<open>xmlns\<close> without being namespace declarations, which \<open>RE_XMLNS_ATTR\<close> matches too.)
\<close>

theorem attribute_removals_offered:
  assumes "nodeAt p doc = Some (Element nm ns attrs cls st kids)"
    and "Throw \<notin> set (cleaningOps doc)"
    and "\<forall>a\<in>set attrs. RE_XMLNS_ATTR (attrName a) \<longrightarrow> isNamespaceDeclaration (attrName a)"
  shows "List.map_filter removedAttribute (yieldsAt p (cleaningOps doc)) =
           filter (\<lambda>n. n \<notin> set doNotRemoveAttrs)
             (filter (\<lambda>n. \<not> isNamespaceDeclaration n) (map attrName attrs)
              @ rev (filter isNamespaceDeclaration (map attrName attrs)))"
proof -
  have ns: "RE_XMLNS_ATTR n = isNamespaceDeclaration n" if "n \<in> set (map attrName attrs)" for n
  proof
    assume "RE_XMLNS_ATTR n" with assms(3) that show "isNamespaceDeclaration n" by auto
  next
    assume "isNamespaceDeclaration n"
    then consider "n = ''xmlns''" | "take 6 n = ''xmlns:''"
      unfolding isNamespaceDeclaration_def by blast
    then have "take 5 n = ''xmlns''"
    proof cases
      case 1
      then show ?thesis by simp
    next
      case 2
      have "take 5 n = take 5 (take 6 n)" by simp
      also have "\<dots> = ''xmlns''" unfolding 2 by simp
      finally show ?thesis .
    qed
    then show "RE_XMLNS_ATTR n" by (simp add: RE_XMLNS_ATTR_def)
  qed
  have f1: "filter (\<lambda>n. \<not> RE_XMLNS_ATTR n) (map attrName attrs)
         = filter (\<lambda>n. \<not> isNamespaceDeclaration n) (map attrName attrs)"
    by (rule filter_cong) (simp_all add: ns)
  have f2: "filter RE_XMLNS_ATTR (map attrName attrs)
         = filter isNamespaceDeclaration (map attrName attrs)"
    by (rule filter_cong) (simp_all add: ns)
  show ?thesis
    by (simp only: yieldsAt_cleaningOps [OF assms(2)] assms(1) option.simps removed_ownEvents
        sortAttrs_eq f1 f2)
qed

text \<open>The theorem at the root element of \<open>demoAttrsDoc\<close>.\<close>

theorem attribute_removals_offered_witness:
  "nodeAt [0] demoAttrsDoc = Some (Element ''svg'' (Some SVG_NS) demoAttrs [] (Some []) [])
   \<and> Throw \<notin> set (cleaningOps demoAttrsDoc)
   \<and> List.map_filter removedAttribute (yieldsAt [0] (cleaningOps demoAttrsDoc)) =
           filter (\<lambda>n. n \<notin> set doNotRemoveAttrs)
             (filter (\<lambda>n. \<not> isNamespaceDeclaration n) (map attrName demoAttrs)
              @ rev (filter isNamespaceDeclaration (map attrName demoAttrs)))"
proof -
  have h1: "nodeAt [0] demoAttrsDoc = Some (Element ''svg'' (Some SVG_NS) demoAttrs [] (Some []) [])"
    by (simp add: demoAttrsDoc_def)
  have h2: "Throw \<notin> set (cleaningOps demoAttrsDoc)"
    by code_simp
  have h3: "\<forall>a\<in>set demoAttrs. RE_XMLNS_ATTR (attrName a) \<longrightarrow> isNamespaceDeclaration (attrName a)"
    by code_simp
  from attribute_removals_offered [OF h1 h2 h3] h1 h2 show ?thesis by blast
qed

text \<open>
  C8 as stated fails: \<^verbatim>\<open>xmlns:a\<close> stands before \<^verbatim>\<open>xmlns:b\<close> in the element, and the
  candidate for \<^verbatim>\<open>xmlns:b\<close> is offered before the one for \<^verbatim>\<open>xmlns:a\<close>.
\<close>

theorem attribute_removals_order_counterexample:
  "map attrName demoAttrs = [''xmlns'', ''xmlns:a'', ''fill'', ''width'', ''xmlns:b'']
   \<and> List.map_filter removedAttribute (yieldsAt [0] (cleaningOps demoAttrsDoc))
       = [''fill'', ''xmlns:b'', ''xmlns:a'']"
  by code_simp

end
